theory Spec2Isabelle
  imports Complex_Main "HOL-Library.Sublist"
begin

section \<open>Strings of the page and of the rules\<close>

text \<open>
  The bookmarklet works on JavaScript strings, which are sequences of UTF-16 code units.
  This development covers the strings all of whose code units are below 256 (the Latin-1
  range, of which ASCII is a part): one \<^typ>\<open>char\<close> is one code unit, and \<open>length\<close> is
  the \<open>length\<close> property.  The string operations below are the built-in ones restricted
  to that range.
\<close>

definition is_ws :: "char \<Rightarrow> bool" where
  \<comment> \<open>white space and line terminators: what \<open>trim\<close> strips and the class \<open>\s\<close> matches\<close>
  "is_ws c = (c \<in> set [CHR 0x09, CHR 0x0A, CHR 0x0B, CHR 0x0C, CHR 0x0D, CHR 0x20, CHR 0xA0])"

definition trim :: "string \<Rightarrow> string" where
  "trim s = rev (dropWhile is_ws (rev (dropWhile is_ws s)))"

fun split_nl :: "string \<Rightarrow> string list" where
  \<comment> \<open>\<open>s.split("\n")\<close>: never the empty list\<close>
  "split_nl [] = [[]]"
| "split_nl (c # cs) =
     (if c = CHR 0x0A then [] # split_nl cs
      else (case split_nl cs of [] \<Rightarrow> [[c]] | l # ls \<Rightarrow> (c # l) # ls))"

fun startsWith :: "string \<Rightarrow> string \<Rightarrow> bool" where
  "startsWith s [] = True"
| "startsWith [] (p # ps) = False"
| "startsWith (c # cs) (p # ps) = (c = p \<and> startsWith cs ps)"

fun str_includes :: "string \<Rightarrow> string \<Rightarrow> bool" where
  "str_includes [] sub = (sub = [])"
| "str_includes (c # cs) sub = (startsWith (c # cs) sub \<or> str_includes cs sub)"

definition to_lower_char :: "char \<Rightarrow> char" where
  "to_lower_char c =
     (let n = (of_char c :: nat)
      in if (65 \<le> n \<and> n \<le> 90) \<or> (192 \<le> n \<and> n \<le> 222 \<and> n \<noteq> 215)
         then char_of (n + 32) else c)"

definition toLowerCase :: "string \<Rightarrow> string" where
  "toLowerCase s = map to_lower_char s"

fun show_nat :: "nat \<Rightarrow> string" where
  \<comment> \<open>a non-negative integer interpolated into a template literal\<close>
  "show_nat n =
     (if n < 10 then [char_of (48 + n)]
      else show_nat (n div 10) @ [char_of (48 + n mod 10)])"

declare show_nat.simps [simp del]


section \<open>Regular expressions\<close>

text \<open>
  The two patterns of the program use literals, \<open>\s\<close>, \<open>\b\<close>, \<open>?\<close>, \<open>*\<close> and \<open>|\<close>.
  A cursor is the character before the current position (if any) and the rest of the
  input.  \<open>matches\<close> lists the cursors at which a match starting at the given cursor can
  end, in the order in which the backtracking matcher tries them (greedy quantifiers,
  left alternative first, no iteration of a quantifier over the empty string).
\<close>

datatype re = Eps | Ch char | Space | WordB | Seq re re | Alt re re | Opt re | Star re

type_synonym cursor = "char option \<times> string"

definition canonicalize :: "char \<Rightarrow> char" where
  \<comment> \<open>case folding of the flag \<open>i\<close> (without \<open>u\<close>): to upper case, where that is one code
      unit of the range\<close>
  "canonicalize c =
     (let n = (of_char c :: nat)
      in if (97 \<le> n \<and> n \<le> 122) \<or> (224 \<le> n \<and> n \<le> 254 \<and> n \<noteq> 247)
         then char_of (n - 32) else c)"

definition ch_matches :: "bool \<Rightarrow> char \<Rightarrow> char \<Rightarrow> bool" where
  "ch_matches ic c x = (if ic then canonicalize c = canonicalize x else c = x)"

definition is_word_char :: "char \<Rightarrow> bool" where
  "is_word_char c =
     (c \<in> set ''abcdefghijklmnopqrstuvwxyzABCDEFGHIJKLMNOPQRSTUVWXYZ0123456789_'')"

definition at_boundary :: "cursor \<Rightarrow> bool" where
  "at_boundary cur =
     ((case fst cur of None \<Rightarrow> False | Some a \<Rightarrow> is_word_char a)
      \<noteq> (case snd cur of [] \<Rightarrow> False | b # _ \<Rightarrow> is_word_char b))"

definition advances :: "cursor \<Rightarrow> cursor \<Rightarrow> bool" where
  "advances cur e = (length (snd e) < length (snd cur))"

fun star_iter :: "(cursor \<Rightarrow> cursor list) \<Rightarrow> nat \<Rightarrow> cursor \<Rightarrow> cursor list" where
  "star_iter m 0 cur = [cur]"
| "star_iter m (Suc k) cur =
     concat (map (star_iter m k) (filter (advances cur) (m cur))) @ [cur]"

primrec matches :: "bool \<Rightarrow> re \<Rightarrow> cursor \<Rightarrow> cursor list" where
  "matches ic Eps = (\<lambda>cur. [cur])"
| "matches ic (Ch c) =
     (\<lambda>cur. case snd cur of [] \<Rightarrow> []
            | x # xs \<Rightarrow> if ch_matches ic c x then [(Some x, xs)] else [])"
| "matches ic Space =
     (\<lambda>cur. case snd cur of [] \<Rightarrow> []
            | x # xs \<Rightarrow> if is_ws x then [(Some x, xs)] else [])"
| "matches ic WordB = (\<lambda>cur. if at_boundary cur then [cur] else [])"
| "matches ic (Seq a b) = (\<lambda>cur. concat (map (matches ic b) (matches ic a cur)))"
| "matches ic (Alt a b) = (\<lambda>cur. matches ic a cur @ matches ic b cur)"
| "matches ic (Opt a) = (\<lambda>cur. filter (advances cur) (matches ic a cur) @ [cur])"
| "matches ic (Star a) = (\<lambda>cur. star_iter (matches ic a) (length (snd cur)) cur)"

fun search :: "bool \<Rightarrow> re \<Rightarrow> char option \<Rightarrow> string \<Rightarrow> cursor option" where
  \<comment> \<open>the first match at the leftmost position where there is one\<close>
  "search ic r prev [] =
     (case matches ic r (prev, []) of [] \<Rightarrow> None | e # _ \<Rightarrow> Some e)"
| "search ic r prev (x # xs) =
     (case matches ic r (prev, x # xs) of [] \<Rightarrow> search ic r (Some x) xs | e # _ \<Rightarrow> Some e)"

record regexp =
  source :: re
  ignoreCase :: bool
  global :: bool
  lastIndex :: nat

definition RegExp_new :: "re \<Rightarrow> string \<Rightarrow> regexp" where
  \<comment> \<open>\<open>new RegExp(pattern, flags)\<close>, for the flags \<open>i\<close> and \<open>g\<close>\<close>
  "RegExp_new r flags =
     \<lparr>source = r, ignoreCase = (CHR ''i'' \<in> set flags), global = (CHR ''g'' \<in> set flags),
      lastIndex = 0\<rparr>"

definition RegExp_test :: "regexp \<Rightarrow> string \<Rightarrow> bool \<times> regexp" where
  \<comment> \<open>\<open>R.test(s)\<close>: a global expression starts at its \<open>lastIndex\<close> and moves it, any other
      starts at 0 and keeps no position\<close>
  "RegExp_test R s =
     (let i = (if global R then lastIndex R else 0)
      in if length s < i then (False, if global R then R\<lparr>lastIndex := 0\<rparr> else R)
         else (case search (ignoreCase R) (source R)
                      (if i = 0 then None else Some (s ! (i - 1))) (drop i s) of
                 None \<Rightarrow> (False, if global R then R\<lparr>lastIndex := 0\<rparr> else R)
               | Some e \<Rightarrow>
                   (True, if global R then R\<lparr>lastIndex := length s - length (snd e)\<rparr> else R)))"

fun lits :: "string \<Rightarrow> re" where
  "lits [] = Eps"
| "lits (c # cs) = Seq (Ch c) (lits cs)"


section \<open>Classification rules\<close>

definition IGNORE_COURSES :: "string list" where
  "IGNORE_COURSES =
     [''fbla'', ''deca'', ''speech & debate'', ''honor society'', ''nhs'',
      ''sat prep'', ''sat math'', ''math honor'']"

definition IGNORE_TYPES :: "string list" where
  "IGNORE_TYPES = [''leq'', ''dbq'', ''mcq'', ''saq'', ''frq'']"

definition APUSH_pattern :: re where
  \<comment> \<open>\<open>ap\s*u\.?s\.?\s*hist|apush\<close>\<close>
  "APUSH_pattern =
     Alt (Seq (lits ''ap'') (Seq (Star Space) (Seq (Ch CHR ''u'') (Seq (Opt (Ch CHR ''.''))
           (Seq (Ch CHR ''s'') (Seq (Opt (Ch CHR ''.'')) (Seq (Star Space) (lits ''hist''))))))))
         (lits ''apush'')"

definition APUSH_RE :: regexp where
  "APUSH_RE = RegExp_new APUSH_pattern ''i''"

definition type_pattern :: "string \<Rightarrow> re" where
  \<comment> \<open>the pattern \<open>\bTOKEN\b\<close>; every token of \<open>IGNORE_TYPES\<close> is made of letters only\<close>
  "type_pattern t = Seq WordB (Seq (lits t) WordB)"

definition shouldSkip :: "regexp \<Rightarrow> string \<Rightarrow> string \<Rightarrow> bool \<times> regexp" where
  \<comment> \<open>the first argument is the state of the shared object \<open>APUSH_RE\<close>, returned as the
      call leaves it\<close>
  "shouldSkip apush title course =
     (let combined = toLowerCase (title @ '' '' @ course)
      in if list_ex (\<lambda>c. str_includes combined c) IGNORE_COURSES then (True, apush)
         else (case RegExp_test apush combined of
                 (m, apush') \<Rightarrow>
                   if m then (True, apush')
                   else if list_ex (\<lambda>t. fst (RegExp_test (RegExp_new (type_pattern t) ''i'') title))
                             IGNORE_TYPES
                        then (True, apush')
                        else (False, apush')))"

text \<open>The three rules of the exclusion policy, each on its own.\<close>

definition excluded_course :: "string \<Rightarrow> string \<Rightarrow> bool" where
  "excluded_course title course =
     list_ex (\<lambda>c. str_includes (toLowerCase (title @ '' '' @ course)) c) IGNORE_COURSES"

definition excluded_subject :: "string \<Rightarrow> string \<Rightarrow> bool" where
  "excluded_subject title course =
     fst (RegExp_test APUSH_RE (toLowerCase (title @ '' '' @ course)))"

definition excluded_type :: "string \<Rightarrow> bool" where
  "excluded_type title =
     list_ex (\<lambda>t. fst (RegExp_test (RegExp_new (type_pattern t) ''i'') title)) IGNORE_TYPES"

datatype rule = CourseRule | SubjectRule | TypeRule

fun rule_fires :: "rule \<Rightarrow> string \<Rightarrow> string \<Rightarrow> bool" where
  "rule_fires CourseRule title course = excluded_course title course"
| "rule_fires SubjectRule title course = excluded_subject title course"
| "rule_fires TypeRule title course = excluded_type title"

fun exclude_in_order :: "rule list \<Rightarrow> string \<Rightarrow> string \<Rightarrow> bool" where
  \<comment> \<open>the policy with its rules tried in the given order, stopping at the first that fires\<close>
  "exclude_in_order [] title course = False"
| "exclude_in_order (r # rs) title course =
     (if rule_fires r title course then True else exclude_in_order rs title course)"


section \<open>Values and errors\<close>

datatype json =
  JNull | JBool bool | JNum rat | JStr string | JArr "json list" | JObj "(string \<times> json) list"

text \<open>
  A JavaScript value read out of a parsed response is a \<^typ>\<open>json\<close> or \<open>undefined\<close>
  (\<open>None\<close>).  \<open>JObj\<close> lists the own properties of a parsed object, each name once.
\<close>

type_synonym jsval = "json option"

text \<open>
  An error object, as far as the script reads it.  The faults the script can run into by
  itself are the reading of a name nothing declares, the reading of a property of
  \<open>undefined\<close>, and the call of something that is no function; the text and the stack of
  the error thrown for a fault are the engine's.
\<close>

record exn =
  message :: string
  stack :: string

datatype fault = NotDefined string | ReadOfUndefined string | NotAFunction string


section \<open>The record extractor\<close>

text \<open>
  What \<open>scanLiveTodo\<close> reads of the live document: the address of the window, the
  elements the first selector finds and those the second one finds, in document order.
  Of a link it reads the \<open>href\<close> attribute, the text of the card around it (absent when
  no ancestor serves as a card) and its own text; of an item, its text and the first
  detail link inside it, if there is one.  Only an HTML element has an \<open>innerText\<close>: on
  any other element (one of an embedded SVG image, say) the property is \<open>undefined\<close>.
\<close>

record link =
  href_attr :: "string option"
  card_innerText :: "string option"
  link_innerText :: "string option"

record item =
  item_innerText :: "string option"
  item_link :: "string option option"

record page =
  location_href :: string
  allLinks :: "link list"
  items :: "item list"

record assignment =
  title :: string
  course :: string
  url :: string
  text' :: string

type_synonym scan_state = "string set \<times> assignment list \<times> regexp"

definition js_or :: "string option \<Rightarrow> string \<Rightarrow> string" where
  \<comment> \<open>\<open>x || y\<close> for \<open>x\<close> a string, \<open>null\<close> or \<open>undefined\<close>\<close>
  "js_or x y = (case x of None \<Rightarrow> y | Some s \<Rightarrow> if s = [] then y else s)"

definition first_or_Unknown :: "string list \<Rightarrow> string" where
  \<comment> \<open>\<open>lines[0] || "Unknown"\<close>\<close>
  "first_or_Unknown ls = (case ls of [] \<Rightarrow> ''Unknown'' | l # _ \<Rightarrow> js_or (Some l) ''Unknown'')"

definition fullUrl :: "string \<Rightarrow> string" where
  "fullUrl href =
     (if startsWith href ''http'' then href else ''https://classroom.google.com'' @ href)"

definition names_course :: "string \<Rightarrow> bool" where
  "names_course line =
     (list_ex (\<lambda>c. str_includes (toLowerCase line) c) IGNORE_COURSES
      \<or> str_includes line ''Block'' \<or> str_includes line ''Period'')"

definition link_href :: "link \<Rightarrow> string" where
  \<comment> \<open>\<open>link.getAttribute("href") || ""\<close>\<close>
  "link_href l = js_or (href_attr l) []"

definition link_text :: "link \<Rightarrow> string" where
  "link_text l = trim (js_or (card_innerText l) (js_or (link_innerText l) []))"

definition link_lines :: "link \<Rightarrow> string list" where
  "link_lines l = filter (\<lambda>row. 3 < length row) (map trim (split_nl (link_text l)))"

definition link_record :: "link \<Rightarrow> assignment" where
  \<comment> \<open>the object the first pass builds for a link\<close>
  "link_record l =
     \<lparr>title = first_or_Unknown (link_lines l),
      course = (case find names_course (link_lines l) of None \<Rightarrow> [] | Some row \<Rightarrow> row),
      url = fullUrl (link_href l),
      text' = link_text l\<rparr>"

definition visit_link :: "link \<Rightarrow> scan_state \<Rightarrow> scan_state" where
  \<comment> \<open>one iteration of the loop over \<open>allLinks\<close>\<close>
  "visit_link l s =
     (case s of (seen, assignments, apush) \<Rightarrow>
        let href = link_href l
        in if href \<in> seen \<or> str_includes href ''not-turned-in'' then s
           else (case shouldSkip apush (title (link_record l)) (course (link_record l)) of
                   (skip, apush') \<Rightarrow>
                     (insert href seen,
                      if \<not> skip then assignments @ [link_record l] else assignments,
                      apush')))"

primrec visit_links :: "link list \<Rightarrow> scan_state \<Rightarrow> scan_state" where
  "visit_links [] s = s"
| "visit_links (l # ls) s = visit_links ls (visit_link l s)"

definition item_text :: "item \<Rightarrow> string" where
  \<comment> \<open>\<open>item.innerText.trim()\<close>, for an item that has an \<open>innerText\<close>\<close>
  "item_text it = (case item_innerText it of None \<Rightarrow> [] | Some t \<Rightarrow> trim t)"

definition item_record :: "item \<Rightarrow> string \<Rightarrow> assignment" where
  \<comment> \<open>the object the second pass builds for an item whose detail link has the given address\<close>
  "item_record it href =
     \<lparr>title = first_or_Unknown (filter (\<lambda>row. 3 < length (trim row)) (split_nl (item_text it))),
      course = [],
      url = fullUrl href,
      text' = item_text it\<rparr>"

definition visit_item :: "(fault \<Rightarrow> exn) \<Rightarrow> item \<Rightarrow> scan_state \<Rightarrow> (exn + unit) \<times> scan_state" where
  \<comment> \<open>one iteration of the loop over \<open>items\<close>; the first argument gives the error the
      engine throws for a fault\<close>
  "visit_item thrown it s =
     (case s of (seen, assignments, apush) \<Rightarrow>
        (case item_innerText it of
           None \<Rightarrow> (Inl (thrown (ReadOfUndefined ''trim'')), s)
         | Some t \<Rightarrow>
             (case item_link it of
                None \<Rightarrow> (Inr (), s)
              | Some h \<Rightarrow>
                  let href = js_or h []
                  in if href \<in> seen then (Inr (), s)
                     else (case shouldSkip apush (title (item_record it href)) (item_text it) of
                             (skip, apush') \<Rightarrow>
                               if \<not> skip
                               then (Inr (), insert href seen, assignments @ [item_record it href], apush')
                               else (Inr (), seen, assignments, apush')))))"

primrec visit_items :: "(fault \<Rightarrow> exn) \<Rightarrow> item list \<Rightarrow> scan_state \<Rightarrow> (exn + unit) \<times> scan_state" where
  "visit_items thrown [] s = (Inr (), s)"
| "visit_items thrown (it # its) s =
     (case visit_item thrown it s of
        (Inl e, s') \<Rightarrow> (Inl e, s')
      | (Inr u, s') \<Rightarrow> visit_items thrown its s')"

definition extract_records :: "(fault \<Rightarrow> exn) \<Rightarrow> page \<Rightarrow> regexp \<Rightarrow> (exn + unit) \<times> scan_state" where
  \<comment> \<open>the two passes of \<open>scanLiveTodo\<close>, from an empty \<open>seen\<close> and an empty \<open>assignments\<close>\<close>
  "extract_records thrown p apush =
     (let s = visit_links (allLinks p) ({}, [], apush)
      in if length (fst (snd s)) = 0 then visit_items thrown (items p) s else (Inr (), s))"


section \<open>Effects of a run\<close>

text \<open>
  A run acts on the operator's overlay, the log, the clock and the network.  Its effects are
  recorded in the order in which they happen.  The markup of a result block is constant
  text around the interpolated values, and a block is recorded by its kind and those values.
\<close>

record request =
  req_url :: string
  req_method :: string
  req_headers :: "(string \<times> string) list"
  req_body :: json

datatype body = BadBody exn | JsonBody json

datatype fetch_outcome = Rejected exn | Response bool body

datatype block =
  RecordHeader nat string string
  | DraftBlock string string
  | DraftFailed
  | EmptyHint
  | DoneFooter

datatype event =
  PanelCreated
  | Status string
  | Result block
  | Logged string
  | Sleep nat
  | Navigate string
  | Fetch request

record state =
  trace :: "event list"
  sent :: nat
  apush_re :: regexp

text \<open>
  The surroundings of a run: the two configured constants, the binding of the name
  \<open>GEMINI_KEY\<close> in the global object (the script declares no such name; \<open>None\<close> when the
  global object has none either), the document, the answer of the network to the \<open>n\<close>-th
  request of the run, and the error the engine throws for a fault.
\<close>

record env =
  API_KEY :: string
  API_MODE :: string
  global_GEMINI_KEY :: "jsval option"
  document :: page
  net :: "nat \<Rightarrow> request \<Rightarrow> fetch_outcome"
  thrown :: "fault \<Rightarrow> exn"

definition log_msg :: "string \<Rightarrow> state \<Rightarrow> state" where
  "log_msg msg st = st\<lparr>trace := trace st @ [Logged msg]\<rparr>"

definition setStatus :: "string \<Rightarrow> state \<Rightarrow> state" where
  "setStatus msg st = log_msg msg (st\<lparr>trace := trace st @ [Status msg]\<rparr>)"

definition addResult :: "block \<Rightarrow> state \<Rightarrow> state" where
  "addResult b st = st\<lparr>trace := trace st @ [Result b]\<rparr>"

definition createPanel :: "state \<Rightarrow> state" where
  "createPanel st = st\<lparr>trace := trace st @ [PanelCreated]\<rparr>"

definition sleep :: "nat \<Rightarrow> state \<Rightarrow> state" where
  \<comment> \<open>\<open>await new Promise(r => setTimeout(r, ms))\<close>\<close>
  "sleep ms st = st\<lparr>trace := trace st @ [Sleep ms]\<rparr>"

definition fetch :: "env \<Rightarrow> request \<Rightarrow> state \<Rightarrow> fetch_outcome \<times> state" where
  "fetch E req st = (net E (sent st) req, st\<lparr>trace := trace st @ [Fetch req], sent := sent st + 1\<rparr>)"


section \<open>The generation client\<close>

definition truthy :: "jsval \<Rightarrow> bool" where
  "truthy v =
     (case v of
        None \<Rightarrow> False
      | Some JNull \<Rightarrow> False
      | Some (JBool b) \<Rightarrow> b
      | Some (JNum n) \<Rightarrow> n \<noteq> 0
      | Some (JStr s) \<Rightarrow> s \<noteq> []
      | Some _ \<Rightarrow> True)"

definition get_prop :: "jsval \<Rightarrow> string \<Rightarrow> jsval" where
  \<comment> \<open>\<open>v?.name\<close>, for a name no array, string, number or boolean has as a property\<close>
  "get_prop v name = (case v of Some (JObj kvs) \<Rightarrow> map_of kvs name | _ \<Rightarrow> None)"

definition get_first :: "jsval \<Rightarrow> jsval" where
  \<comment> \<open>\<open>v?.[0]\<close>\<close>
  "get_first v =
     (case v of
        Some (JArr xs) \<Rightarrow> (case xs of [] \<Rightarrow> None | x # _ \<Rightarrow> Some x)
      | Some (JStr s) \<Rightarrow> (case s of [] \<Rightarrow> None | c # _ \<Rightarrow> Some (JStr [c]))
      | Some (JObj kvs) \<Rightarrow> map_of kvs ''0''
      | _ \<Rightarrow> None)"

datatype 'a completion = Returned 'a | Continued | Normal

definition trimmed_text :: "env \<Rightarrow> jsval \<Rightarrow> exn + string completion" where
  \<comment> \<open>\<open>if (text && text.trim()) return text.trim();\<close>\<close>
  "trimmed_text E v =
     (if \<not> truthy v then Inr Normal
      else (case v of
              Some (JStr s) \<Rightarrow> if trim s \<noteq> [] then Inr (Returned (trim s)) else Inr Normal
            | _ \<Rightarrow> Inl (thrown E (NotAFunction ''text.trim''))))"

definition GEMINI_URL :: "env \<Rightarrow> string" where
  "GEMINI_URL E =
     ''https://generativelanguage.googleapis.com/v1beta/models/gemini-2.0-flash:generateContent?key=''
     @ API_KEY E"

definition GEMINI_FALLBACK :: "env \<Rightarrow> string" where
  "GEMINI_FALLBACK E =
     ''https://generativelanguage.googleapis.com/v1beta/models/gemma-3-1b-it:generateContent?key=''
     @ API_KEY E"

definition OPENROUTER_URL :: string where
  "OPENROUTER_URL = ''https://openrouter.ai/api/v1/chat/completions''"

definition gemini_request :: "string \<Rightarrow> string \<Rightarrow> request" where
  "gemini_request u prompt =
     \<lparr>req_url = u, req_method = ''POST'',
      req_headers = [(''Content-Type'', ''application/json'')],
      req_body =
        JObj [(''contents'', JArr [JObj [(''parts'', JArr [JObj [(''text'', JStr prompt)]])]]),
              (''generationConfig'',
               JObj [(''temperature'', JNum (7 / 10)), (''maxOutputTokens'', JNum 2048)])]\<rparr>"

definition gemini_text :: "json \<Rightarrow> jsval" where
  \<comment> \<open>\<open>data?.candidates?.[0]?.content?.parts?.[0]?.text\<close>\<close>
  "gemini_text data =
     get_prop (get_first (get_prop (get_prop (get_first (get_prop (Some data) ''candidates''))
       ''content'') ''parts'')) ''text''"

definition gemini_attempt :: "env \<Rightarrow> string \<Rightarrow> string \<Rightarrow> state \<Rightarrow> (exn + string completion) \<times> state" where
  \<comment> \<open>the \<open>try\<close> block of \<open>callGeminiDirect\<close> for one address\<close>
  "gemini_attempt E prompt u st =
     (case fetch E (gemini_request u prompt) st of
        (Rejected e, st') \<Rightarrow> (Inl e, st')
      | (Response ok b, st') \<Rightarrow>
          if \<not> ok then (Inr Continued, st')
          else (case b of
                  BadBody e \<Rightarrow> (Inl e, st')
                | JsonBody data \<Rightarrow> (trimmed_text E (gemini_text data), st')))"

fun gemini_loop :: "env \<Rightarrow> string \<Rightarrow> string list \<Rightarrow> state \<Rightarrow> (exn + string option) \<times> state" where
  "gemini_loop E prompt [] st = (Inr None, st)"
| "gemini_loop E prompt (u # us) st =
     (case gemini_attempt E prompt u st of
        (Inl e, st') \<Rightarrow> gemini_loop E prompt us (log_msg (''Gemini error: '' @ message e) st')
      | (Inr (Returned t), st') \<Rightarrow> (Inr (Some t), st')
      | (Inr _, st') \<Rightarrow> gemini_loop E prompt us st')"

definition callGeminiDirect :: "env \<Rightarrow> string \<Rightarrow> state \<Rightarrow> (exn + string option) \<times> state" where
  "callGeminiDirect E prompt st = gemini_loop E prompt [GEMINI_URL E, GEMINI_FALLBACK E] st"

definition openrouter_request :: "env \<Rightarrow> string \<Rightarrow> string \<Rightarrow> request" where
  "openrouter_request E model prompt =
     \<lparr>req_url = OPENROUTER_URL, req_method = ''POST'',
      req_headers = [(''Content-Type'', ''application/json''),
                     (''Authorization'', ''Bearer '' @ API_KEY E),
                     (''HTTP-Referer'', ''https://classroom.google.com'')],
      req_body =
        JObj [(''model'', JStr model),
              (''messages'', JArr [JObj [(''role'', JStr ''user''), (''content'', JStr prompt)]]),
              (''temperature'', JNum (7 / 10)),
              (''max_tokens'', JNum 2048)]\<rparr>"

definition openrouter_text :: "json \<Rightarrow> jsval" where
  \<comment> \<open>\<open>data?.choices?.[0]?.message?.content\<close>\<close>
  "openrouter_text data =
     get_prop (get_prop (get_first (get_prop (Some data) ''choices'')) ''message'') ''content''"

definition openrouter_attempt :: "env \<Rightarrow> string \<Rightarrow> string \<Rightarrow> state \<Rightarrow> (exn + string completion) \<times> state" where
  \<comment> \<open>the \<open>try\<close> block of \<open>callOpenRouter\<close> for one model\<close>
  "openrouter_attempt E prompt model st =
     (case fetch E (openrouter_request E model prompt) st of
        (Rejected e, st') \<Rightarrow> (Inl e, st')
      | (Response ok b, st') \<Rightarrow>
          if \<not> ok then (Inr Continued, st')
          else (case b of
                  BadBody e \<Rightarrow> (Inl e, st')
                | JsonBody data \<Rightarrow> (trimmed_text E (openrouter_text data), st')))"

fun openrouter_loop :: "env \<Rightarrow> string \<Rightarrow> string list \<Rightarrow> state \<Rightarrow> (exn + string option) \<times> state" where
  "openrouter_loop E prompt [] st = (Inr None, st)"
| "openrouter_loop E prompt (m # ms) st =
     (case openrouter_attempt E prompt m st of
        (Inl e, st') \<Rightarrow> openrouter_loop E prompt ms (log_msg (''OpenRouter error: '' @ message e) st')
      | (Inr (Returned t), st') \<Rightarrow> (Inr (Some t), st')
      | (Inr _, st') \<Rightarrow> openrouter_loop E prompt ms st')"

definition callOpenRouter :: "env \<Rightarrow> string \<Rightarrow> state \<Rightarrow> (exn + string option) \<times> state" where
  "callOpenRouter E prompt st =
     openrouter_loop E prompt [''google/gemini-2.0-flash-exp:free'', ''google/gemma-3-1b-it:free''] st"

definition callLLM :: "env \<Rightarrow> string \<Rightarrow> state \<Rightarrow> (exn + string option) \<times> state" where
  "callLLM E prompt st =
     (if API_MODE E = ''openrouter'' then callOpenRouter E prompt st
      else callGeminiDirect E prompt st)"


section \<open>Drafts\<close>

definition nl :: string where
  "nl = [CHR 0x0A]"

fun join :: "string \<Rightarrow> string list \<Rightarrow> string" where
  \<comment> \<open>\<open>xs.join(sep)\<close>\<close>
  "join sep [] = []"
| "join sep [x] = x"
| "join sep (x # y # ys) = x @ sep @ join sep (y # ys)"

definition STYLE_EXAMPLES :: "string list" where
  "STYLE_EXAMPLES =
     [''Hope, because it keeps going and is the reason why I continue to do the stuff that I do. Honor because I was born with respect to my duty and my loved ones. Integrity, because I was raised to not cheat people.'',
      ''With many of my business endeavours, I often had to choose with being honest with my clients about the progress of the work, and sometimes I would have a lot of other stuff to focus on too, so sometimes progress gets delayed, but I would try to remain honest with them about it, and then quickly finish it.'']"

definition draft_prompt :: "assignment \<Rightarrow> string" where
  \<comment> \<open>the template of \<open>generateDraft\<close>, line by line\<close>
  \<open>draft_prompt a = join nl
     [''You are writing a homework response in a student'' @ [CHR 0x27] @ ''s personal voice.'',
      [],
      ''CRITICAL RULES:'',
      ''- Match this student'' @ [CHR 0x27] @ ''s writing style: casual, simple punctuation (periods/commas), no semicolons or em dashes'',
      ''- NEVER sound robotic, formal, or AI-generated'',
      ''- Keep wording natural with normal imperfections'',
      ''- Answer accurately and completely'',
      ''- If there are numbered questions, answer each one separately with its number'',
      ''- Put each answer in its RESPECTIVE position'',
      ''- Keep it the right length (not too long, not too short)'',
      [],
      ''STUDENT STYLE EXAMPLES:'',
      join (nl @ nl) STYLE_EXAMPLES,
      [],
      ''ASSIGNMENT:'',
      ''Title: '' @ title a,
      ''Course: '' @ course a,
      ''Instructions: '' @ take 1500 (text' a),
      [],
      ''OUTPUT RULES:'',
      ''- If there are numbered questions, format as "1. answer'' @ [CHR 0x5C] @ ''n2. answer" etc.'',
      ''- Return plain text only, no markdown, no bold, no headers'',
      ''- No placeholder text like <text> or [insert]'',
      [],
      ''Write the response now. Output ONLY the answer text.'']\<close>

definition generateDraft :: "env \<Rightarrow> assignment \<Rightarrow> state \<Rightarrow> (exn + string option) \<times> state" where
  "generateDraft E a st = callLLM E (draft_prompt a) st"


section \<open>The run\<close>

text \<open>
  The script also declares \<open>scanAssignments\<close>, \<open>getAssignmentDetails\<close> and
  \<open>pasteIntoClassroom\<close>.  Nothing calls them, and they are left out.
\<close>

definition scanLiveTodo :: "env \<Rightarrow> state \<Rightarrow> (exn + assignment list option) \<times> state" where
  \<comment> \<open>\<open>None\<close> is the \<open>null\<close> returned when the window is sent to the to-do page\<close>
  "scanLiveTodo E st =
     (let st1 = setStatus ''Scanning To-do page...'' st
      in if \<not> str_includes (location_href (document E)) ''/a/not-turned-in''
            \<and> \<not> str_includes (location_href (document E)) ''/a/''
         then (Inr None,
               st1\<lparr>trace := trace st1 @ [Navigate ''https://classroom.google.com/u/0/a/not-turned-in/all'']\<rparr>)
         else (let st2 = sleep 3000 st1
               in (case extract_records (thrown E) (document E) (apush_re st2) of
                     (Inl e, seen, assignments, apush') \<Rightarrow> (Inl e, st2\<lparr>apush_re := apush'\<rparr>)
                   | (Inr u, seen, assignments, apush') \<Rightarrow>
                       (Inr (Some assignments), st2\<lparr>apush_re := apush'\<rparr>))))"

definition report_draft :: "assignment \<Rightarrow> string option \<Rightarrow> state \<Rightarrow> state" where
  \<comment> \<open>the branches of \<open>if (draft)\<close> in the loop over the records\<close>
  "report_draft a draft st =
     (case draft of
        None \<Rightarrow> addResult DraftFailed st
      | Some d \<Rightarrow>
          if d \<noteq> []
          then log_msg (''Draft generated for: '' @ title a @ '' ('' @ show_nat (length d) @ '' chars)'')
                 (addResult (DraftBlock d (url a)) st)
          else addResult DraftFailed st)"

fun draft_loop :: "env \<Rightarrow> nat \<Rightarrow> nat \<Rightarrow> assignment list \<Rightarrow> state \<Rightarrow> (exn + unit) \<times> state" where
  \<comment> \<open>the loop over \<open>assignments\<close>: \<open>n\<close> is \<open>assignments.length\<close>, \<open>i\<close> the index of the
      first record of the rest\<close>
  "draft_loop E n i [] st = (Inr (), st)"
| "draft_loop E n i (a # as) st =
     (let st1 = setStatus (''['' @ show_nat (i + 1) @ ''/'' @ show_nat n @ ''] Drafting: '' @ title a) st;
          st2 = addResult (RecordHeader (i + 1) (title a) (course a)) st1
      in (case generateDraft E a st2 of
            (Inl e, st3) \<Rightarrow> (Inl e, st3)
          | (Inr draft, st3) \<Rightarrow>
              (let st4 = report_draft a draft st3;
                   st5 = (if i < n - 1 then sleep 2000 st4 else st4)
               in draft_loop E n (i + 1) as st5)))"

definition read_GEMINI_KEY :: "env \<Rightarrow> exn + jsval" where
  \<comment> \<open>evaluating the name \<open>GEMINI_KEY\<close>, which only the global object can bind\<close>
  "read_GEMINI_KEY E =
     (case global_GEMINI_KEY E of
        None \<Rightarrow> Inl (thrown E (NotDefined ''GEMINI_KEY''))
      | Some v \<Rightarrow> Inr v)"

definition pipeline :: "env \<Rightarrow> state \<Rightarrow> (exn + unit) \<times> state" where
  \<comment> \<open>the \<open>try\<close> block of the script from the call of \<open>scanLiveTodo\<close> on\<close>
  "pipeline E st =
     (case scanLiveTodo E st of
        (Inl e, st2) \<Rightarrow> (Inl e, st2)
      | (Inr None, st2) \<Rightarrow>
          (Inr (), setStatus ''Redirecting to To-do page... Click bookmarklet again after page loads.'' st2)
      | (Inr (Some assignments), st2) \<Rightarrow>
          if length assignments = 0
          then (Inr (), addResult EmptyHint
                  (setStatus (''No assignments found. Make sure you'' @ [CHR 0x27] @ ''re on the To-do page.'') st2))
          else (case draft_loop E (length assignments) 0 assignments
                       (setStatus (''Found '' @ show_nat (length assignments)
                                   @ '' assignment(s). Generating drafts...'') st2) of
                  (Inl e, st3) \<Rightarrow> (Inl e, st3)
                | (Inr u, st3) \<Rightarrow>
                    (Inr (), addResult DoneFooter
                       (setStatus (''Done! '' @ show_nat (length assignments)
                                   @ '' assignment(s) processed.'') st3))))"

definition main_try :: "env \<Rightarrow> state \<Rightarrow> (exn + unit) \<times> state" where
  \<comment> \<open>the \<open>try\<close> block of the script: the panel, the check of the key, the pipeline\<close>
  "main_try E st =
     (let st1 = createPanel st
      in (case read_GEMINI_KEY E of
            Inl e \<Rightarrow> (Inl e, st1)
          | Inr k \<Rightarrow>
              if \<not> truthy k \<or> k = Some (JStr ''%%GEMINI_KEY%%'')
              then (Inr (), setStatus ''ERROR: No API key. Re-create bookmarklet with your key.'' st1)
              else pipeline E st1))"

definition main :: "env \<Rightarrow> state \<Rightarrow> state" where
  \<comment> \<open>the script: its \<open>try\<close> block and its \<open>catch\<close>\<close>
  "main E st =
     (case main_try E st of
        (Inl err, st') \<Rightarrow> log_msg (''Fatal: '' @ stack err) (setStatus (''Error: '' @ message err) st')
      | (Inr u, st') \<Rightarrow> st')"

definition start :: state where
  \<comment> \<open>before the script runs: nothing has happened, and \<open>APUSH_RE\<close> is as declared\<close>
  "start = \<lparr>trace = [], sent = 0, apush_re = APUSH_RE\<rparr>"


section \<open>Notions used in the statements\<close>

definition item_href :: "item \<Rightarrow> string" where
  \<comment> \<open>the address under which the second pass looks an item up in \<open>seen\<close>\<close>
  "item_href it = (case item_link it of None \<Rightarrow> [] | Some h \<Rightarrow> js_or h [])"

definition listing_href :: "string \<Rightarrow> bool" where
  \<comment> \<open>an address the first pass passes over as that of a listing\<close>
  "listing_href h = str_includes h ''not-turned-in''"

definition primary_seen :: "page \<Rightarrow> string set" where
  \<comment> \<open>what the first pass leaves in \<open>seen\<close>: the address of every link it did not pass
      over as a listing\<close>
  "primary_seen p = link_href ` set (filter (\<lambda>l. \<not> listing_href (link_href l)) (allLinks p))"

definition item_excluded :: "regexp \<Rightarrow> item \<Rightarrow> bool" where
  \<comment> \<open>the exclusion check of the second pass on an item: \<open>shouldSkip(title, text)\<close>\<close>
  "item_excluded R it =
     fst (shouldSkip R (title (item_record it (item_href it))) (item_text it))"

definition first_nontrivial_line :: "string \<Rightarrow> string option" where
  \<comment> \<open>the first line whose trimmed length exceeds the threshold of 3\<close>
  "first_nontrivial_line t = find (\<lambda>x. 3 < length (trim x)) (split_nl t)"

definition on_listing :: "page \<Rightarrow> bool" where
  \<comment> \<open>the window is on an address \<open>scanLiveTodo\<close> accepts\<close>
  "on_listing p =
     (str_includes (location_href p) ''/a/not-turned-in'' \<or> str_includes (location_href p) ''/a/'')"

definition key_accepted :: "env \<Rightarrow> bool" where
  \<comment> \<open>the check of the key at the head of the script neither faults nor reports a missing key\<close>
  "key_accepted E =
     (case global_GEMINI_KEY E of
        None \<Rightarrow> False
      | Some k \<Rightarrow> truthy k \<and> k \<noteq> Some (JStr ''%%GEMINI_KEY%%''))"

text \<open>The endpoints of the configured provider, in order, and where its answers carry the text.\<close>

definition endpoint_requests :: "env \<Rightarrow> string \<Rightarrow> request list" where
  "endpoint_requests E prompt =
     (if API_MODE E = ''openrouter''
      then map (\<lambda>m. openrouter_request E m prompt)
             [''google/gemini-2.0-flash-exp:free'', ''google/gemma-3-1b-it:free'']
      else map (\<lambda>u. gemini_request u prompt) [GEMINI_URL E, GEMINI_FALLBACK E])"

definition reply_text :: "env \<Rightarrow> json \<Rightarrow> jsval" where
  "reply_text E data =
     (if API_MODE E = ''openrouter'' then openrouter_text data else gemini_text data)"

fun endpoint_failed :: "env \<Rightarrow> fetch_outcome \<Rightarrow> bool" where
  \<comment> \<open>a network failure, a non-success status, or an extracted text that is absent, empty
      or white space only\<close>
  "endpoint_failed E (Rejected e) = True"
| "endpoint_failed E (Response ok (BadBody e)) = (\<not> ok)"
| "endpoint_failed E (Response ok (JsonBody data)) =
     (\<not> ok \<or> (case reply_text E data of
                  None \<Rightarrow> True
                | Some JNull \<Rightarrow> True
                | Some (JStr s) \<Rightarrow> trim s = []
                | _ \<Rightarrow> False))"

definition shown :: "event list \<Rightarrow> event list" where
  \<comment> \<open>what reaches the operator: the overlay and the log, not the requests\<close>
  "shown es = filter (\<lambda>e. case e of Fetch r \<Rightarrow> False | _ \<Rightarrow> True) es"

text \<open>
  The pace of the loop over the records: for each record the status line that announces
  it, the opening of its block, the outcome that closes the block, and the pause.
\<close>

datatype mark = StartMark string | BlockMark nat string string | OutcomeMark | DelayMark nat

fun mark_of :: "event \<Rightarrow> mark option" where
  "mark_of (Status s) = Some (StartMark s)"
| "mark_of (Result (RecordHeader i t c)) = Some (BlockMark i t c)"
| "mark_of (Result (DraftBlock d u)) = Some OutcomeMark"
| "mark_of (Result DraftFailed) = Some OutcomeMark"
| "mark_of (Sleep ms) = Some (DelayMark ms)"
| "mark_of e = None"

primrec marks :: "event list \<Rightarrow> mark list" where
  "marks [] = []"
| "marks (e # es) = (case mark_of e of None \<Rightarrow> marks es | Some m \<Rightarrow> m # marks es)"

definition starting_status :: "nat \<Rightarrow> nat \<Rightarrow> string \<Rightarrow> string" where
  "starting_status i n t = ''['' @ show_nat i @ ''/'' @ show_nat n @ ''] Drafting: '' @ t"

definition schedule :: "assignment list \<Rightarrow> mark list" where
  \<comment> \<open>record \<open>i\<close> of \<open>N\<close> is announced, reported, and followed by a pause unless it is the last\<close>
  "schedule rs =
     concat (map (\<lambda>i. [StartMark (starting_status (i + 1) (length rs) (title (rs ! i))),
                        BlockMark (i + 1) (title (rs ! i)) (course (rs ! i)),
                        OutcomeMark]
                       @ (if i + 1 < length rs then [DelayMark 2000] else []))
                 [0..<length rs])"

definition is_start :: "mark \<Rightarrow> bool" where
  "is_start m = (case m of StartMark s \<Rightarrow> True | _ \<Rightarrow> False)"

definition is_outcome :: "mark \<Rightarrow> bool" where
  "is_outcome m = (case m of OutcomeMark \<Rightarrow> True | _ \<Rightarrow> False)"

definition is_delay :: "mark \<Rightarrow> bool" where
  "is_delay m = (case m of DelayMark ms \<Rightarrow> True | _ \<Rightarrow> False)"



section \<open>Sample inputs\<close>

definition sample_record :: assignment where
  "sample_record =
     \<lparr>title = ''Chapter 5 Reading Response'',
      course = ''World Literature, Period 3'',
      url = ''https://classroom.google.com/c/NzE/a/ODI/details'',
      text' = ''Chapter 5 Reading Response'' @ nl @ ''World Literature, Period 3''\<rparr>"

definition gemini_reply :: "string \<Rightarrow> body" where
  \<comment> \<open>a well-formed answer of the Gemini endpoints with the given text\<close>
  "gemini_reply t =
     JsonBody (JObj [(''candidates'',
       JArr [JObj [(''content'', JObj [(''parts'', JArr [JObj [(''text'', JStr t)]])])]])])"

definition primary_answers :: "string \<Rightarrow> nat \<Rightarrow> request \<Rightarrow> fetch_outcome" where
  \<comment> \<open>a network on which every endpoint answers with the text\<close>
  "primary_answers t n r = Response True (gemini_reply t)"

definition fallback_answers :: "string \<Rightarrow> nat \<Rightarrow> request \<Rightarrow> fetch_outcome" where
  \<comment> \<open>a network on which only the fallback model answers with the text\<close>
  "fallback_answers t n r =
     (if str_includes (req_url r) ''gemma-3-1b-it'' then Response True (gemini_reply t)
      else Response False (JsonBody JNull))"

definition nothing_answers :: "nat \<Rightarrow> request \<Rightarrow> fetch_outcome" where
  \<comment> \<open>a network on which the first model is unreachable and the fallback answers with blanks\<close>
  "nothing_answers n r =
     (if str_includes (req_url r) ''gemma-3-1b-it'' then Response True (gemini_reply ''   '')
      else Rejected \<lparr>message = ''Failed to fetch'', stack = ''TypeError: Failed to fetch''\<rparr>)"

definition empty_page :: page where
  "empty_page =
     \<lparr>location_href = ''https://classroom.google.com/u/0/a/not-turned-in/all'',
      allLinks = [], items = []\<rparr>"

definition v8_error :: "fault \<Rightarrow> exn" where
  \<comment> \<open>the texts of one engine, the stack cut to its first line\<close>
  "v8_error f =
     (case f of
        NotDefined n \<Rightarrow>
          \<lparr>message = n @ '' is not defined'', stack = ''ReferenceError: '' @ n @ '' is not defined''\<rparr>
      | ReadOfUndefined n \<Rightarrow>
          \<lparr>message = ''Cannot read properties of undefined (reading '' @ [CHR 0x27] @ n @ [CHR 0x27] @ '')'',
           stack = ''TypeError: Cannot read properties of undefined (reading '' @ [CHR 0x27] @ n @ [CHR 0x27] @ '')''\<rparr>
      | NotAFunction n \<Rightarrow>
          \<lparr>message = n @ '' is not a function'', stack = ''TypeError: '' @ n @ '' is not a function''\<rparr>)"

definition sample_env :: "page \<Rightarrow> (nat \<Rightarrow> request \<Rightarrow> fetch_outcome) \<Rightarrow> env" where
  \<comment> \<open>a configured key, the direct provider, and a global object without \<open>GEMINI_KEY\<close>\<close>
  "sample_env p n =
     \<lparr>API_KEY = ''AIzaSyExampleKey0123'', API_MODE = ''gemini'', global_GEMINI_KEY = None,
      document = p, net = n, thrown = v8_error\<rparr>"

primrec schedule_from :: "nat \<Rightarrow> nat \<Rightarrow> assignment list \<Rightarrow> mark list" where
  \<comment> \<open>the schedule of the records from index \<open>i\<close> on, \<open>n\<close> being the number of all records\<close>
  "schedule_from n i [] = []"
| "schedule_from n i (a # as) =
     [StartMark (starting_status (i + 1) n (title a)), BlockMark (i + 1) (title a) (course a),
      OutcomeMark]
     @ (if i + 1 < n then [DelayMark 2000] else [])
     @ schedule_from n (i + 1) as"

definition second_record :: assignment where
  "second_record =
     \<lparr>title = ''Lab report: density'',
      course = ''Chemistry, Block 2'',
      url = ''https://classroom.google.com/c/NzE/a/OTk/details'',
      text' = ''Lab report: density'' @ nl @ ''Chemistry, Block 2'' @ nl @ ''Due tomorrow''\<rparr>"


definition listing :: string where
  "listing = ''https://classroom.google.com/u/0/a/not-turned-in/all''"

definition todo_page :: page where
  \<comment> \<open>two cards, each with one detail link\<close>
  "todo_page =
     \<lparr>location_href = listing,
      allLinks =
        [\<lparr>href_attr = Some ''/c/NzE/a/ODI/details'',
          card_innerText = Some (''Chapter 5 Reading Response'' @ nl @ ''World Literature, Period 3''),
          link_innerText = Some ''Chapter 5 Reading Response''\<rparr>,
         \<lparr>href_attr = Some ''https://classroom.google.com/c/NzE/a/OTk/details'',
          card_innerText = Some (''  Lab report: density'' @ nl @ ''Chemistry, Block 2'' @ nl @ ''Due tomorrow'' @ nl),
          link_innerText = Some ''Lab report: density''\<rparr>],
      items = []\<rparr>"


definition short_card_page :: page where
  \<comment> \<open>a card whose text has no line of more than three characters\<close>
  "short_card_page =
     \<lparr>location_href = listing,
      allLinks =
        [\<lparr>href_attr = Some ''/c/NzE/a/NDQ/details'', card_innerText = Some ''Hi'',
          link_innerText = Some ''Hi''\<rparr>],
      items = []\<rparr>"

definition apush_page :: page where
  \<comment> \<open>the only link of the first selector is excluded; the second selector finds an item
      around that link, and another one around a link the first selector does not match\<close>
  "apush_page =
     \<lparr>location_href = listing,
      allLinks =
        [\<lparr>href_attr = Some ''/c/NzE/a/MTE/details'', card_innerText = Some ''AP U.S. History DBQ #3'',
          link_innerText = Some ''AP U.S. History DBQ #3''\<rparr>],
      items =
        [\<lparr>item_innerText = Some (''AP U.S. History DBQ #3'' @ nl @ ''Due Friday''),
          item_link = Some (Some ''/c/NzE/a/MTE/details'')\<rparr>,
         \<lparr>item_innerText = Some ('' Essay outline '' @ nl @ ''Friday''),
          item_link = Some (Some ''/details/MjI'')\<rparr>]\<rparr>"

definition excluded_only_page :: page where
  \<comment> \<open>the only link is excluded; of the two items of the second selector one sits around
      that link and the other is excluded by the rules\<close>
  "excluded_only_page =
     apush_page\<lparr>items :=
       [hd (items apush_page),
        \<lparr>item_innerText = Some (''APUSH review sheet'' @ nl @ ''Period 4''),
         item_link = Some (Some ''/details/NTU'')\<rparr>]\<rparr>"

definition keyed_env :: "page \<Rightarrow> (nat \<Rightarrow> request \<Rightarrow> fetch_outcome) \<Rightarrow> env" where
  \<comment> \<open>as \<open>sample_env\<close>, on a page whose global object binds \<open>GEMINI_KEY\<close> to a key\<close>
  "keyed_env p n = (sample_env p n)\<lparr>global_GEMINI_KEY := Some (Some (JStr ''AIzaSyExampleKey0123''))\<rparr>"
section \<open>The classification rules are a disjunction\<close>

lemma APUSH_RE_not_global: "\<not> global APUSH_RE"
  by (simp add: APUSH_RE_def RegExp_new_def)

lemma RegExp_test_keeps: "\<not> global R \<Longrightarrow> snd (RegExp_test R s) = R"
  by (simp add: RegExp_test_def Let_def split: option.splits)

lemma shouldSkip_keeps: "\<not> global R \<Longrightarrow> snd (shouldSkip R t c) = R"
  using RegExp_test_keeps [of R "toLowerCase (t @ '' '' @ c)"]
  by (auto simp: shouldSkip_def Let_def split: prod.splits)

lemma shouldSkip_value:
  "fst (shouldSkip APUSH_RE t c) = (excluded_course t c \<or> excluded_subject t c \<or> excluded_type t)"
  by (auto simp: shouldSkip_def excluded_course_def excluded_subject_def excluded_type_def Let_def
           split: prod.splits)

lemma exclude_in_order_iff:
  "exclude_in_order rs t c = (\<exists>r\<in>set rs. rule_fires r t c)"
  by (induction rs) auto

text \<open>
  Claim C9.  \<open>shouldSkip\<close> is deterministic and its result is the disjunction of its three
  rules.  The call leaves the shared expression \<open>APUSH_RE\<close> as it found it (the expression
  has no \<open>g\<close> flag, so \<open>test\<close> keeps no position), hence a second run on the same title
  and course returns the same boolean; and trying the three rules in any order, stopping
  at the first that fires, gives the boolean \<open>shouldSkip\<close> returns.
\<close>

theorem shouldSkip_deterministic_disjunction:
  "shouldSkip APUSH_RE t c
     = (excluded_course t c \<or> excluded_subject t c \<or> excluded_type t, APUSH_RE)
   \<and> fst (shouldSkip (snd (shouldSkip APUSH_RE t c)) t c) = fst (shouldSkip APUSH_RE t c)
   \<and> (\<forall>order. distinct order \<and> set order = {CourseRule, SubjectRule, TypeRule}
          \<longrightarrow> exclude_in_order order t c = fst (shouldSkip APUSH_RE t c))"
proof -
  have keeps: "snd (shouldSkip APUSH_RE t c) = APUSH_RE"
    by (rule shouldSkip_keeps [OF APUSH_RE_not_global])
  have val: "fst (shouldSkip APUSH_RE t c)
             = (excluded_course t c \<or> excluded_subject t c \<or> excluded_type t)"
    by (rule shouldSkip_value)
  have pair: "shouldSkip APUSH_RE t c
     = (excluded_course t c \<or> excluded_subject t c \<or> excluded_type t, APUSH_RE)"
    using keeps val by (simp add: prod_eq_iff)
  have again: "fst (shouldSkip (snd (shouldSkip APUSH_RE t c)) t c) = fst (shouldSkip APUSH_RE t c)"
    by (simp only: keeps)
  have perm: "exclude_in_order order t c = fst (shouldSkip APUSH_RE t c)"
    if "distinct order \<and> set order = {CourseRule, SubjectRule, TypeRule}" for order
    using that by (simp add: exclude_in_order_iff val)
  from pair again perm show ?thesis by blast
qed

theorem shouldSkip_deterministic_disjunction_witness:
  "distinct [TypeRule, CourseRule, SubjectRule]
   \<and> set [TypeRule, CourseRule, SubjectRule] = {CourseRule, SubjectRule, TypeRule}
   \<and> exclude_in_order [TypeRule, CourseRule, SubjectRule] ''Unit 4 MCQ practice'' ''Biology, Period 2''
       = fst (shouldSkip APUSH_RE ''Unit 4 MCQ practice'' ''Biology, Period 2'')
   \<and> shouldSkip APUSH_RE ''Unit 4 MCQ practice'' ''Biology, Period 2'' = (True, APUSH_RE)"
proof -
  have h: "distinct [TypeRule, CourseRule, SubjectRule]
           \<and> set [TypeRule, CourseRule, SubjectRule] = {CourseRule, SubjectRule, TypeRule}"
    by auto
  have t: "excluded_type ''Unit 4 MCQ practice''"
    by code_simp
  from shouldSkip_deterministic_disjunction [of "''Unit 4 MCQ practice''" "''Biology, Period 2''"] h t
  show ?thesis by simp
qed



section \<open>The generation client\<close>

lemma trimmed_text_cases:
  "trimmed_text E v = (case v of
       Some (JStr s) \<Rightarrow> if trim s \<noteq> [] then Inr (Returned (trim s)) else Inr Normal
     | _ \<Rightarrow> if truthy v then Inl (thrown E (NotAFunction ''text.trim'')) else Inr Normal)"
  by (auto simp: trimmed_text_def truthy_def trim_def split: option.splits json.splits)

lemma gemini_loop_returns: "\<exists>r st'. gemini_loop E prompt us st = (Inr r, st')"
proof (induction us arbitrary: st)
  case Nil
  show ?case by simp
next
  case (Cons u us)
  obtain x st1 where a: "gemini_attempt E prompt u st = (x, st1)" by (cases "gemini_attempt E prompt u st")
  show ?case
  proof (cases x)
    case (Inl e)
    with a Cons.IH [of "log_msg (''Gemini error: '' @ message e) st1"] show ?thesis by simp
  next
    case (Inr c)
    with a Cons.IH [of st1] show ?thesis by (cases c) simp_all
  qed
qed

lemma openrouter_loop_returns: "\<exists>r st'. openrouter_loop E prompt ms st = (Inr r, st')"
proof (induction ms arbitrary: st)
  case Nil
  show ?case by simp
next
  case (Cons m ms)
  obtain x st1 where a: "openrouter_attempt E prompt m st = (x, st1)"
    by (cases "openrouter_attempt E prompt m st")
  show ?case
  proof (cases x)
    case (Inl e)
    with a Cons.IH [of "log_msg (''OpenRouter error: '' @ message e) st1"] show ?thesis by simp
  next
    case (Inr c)
    with a Cons.IH [of st1] show ?thesis by (cases c) simp_all
  qed
qed

lemma callLLM_returns: "\<exists>r st'. callLLM E prompt st = (Inr r, st')"
proof (cases "API_MODE E = ''openrouter''")
  case True
  then have "callLLM E prompt st = openrouter_loop E prompt
      [''google/gemini-2.0-flash-exp:free'', ''google/gemma-3-1b-it:free''] st"
    by (simp add: callLLM_def callOpenRouter_def del: openrouter_loop.simps)
  then show ?thesis by (simp only: openrouter_loop_returns)
next
  case False
  then have "callLLM E prompt st = gemini_loop E prompt [GEMINI_URL E, GEMINI_FALLBACK E] st"
    by (simp add: callLLM_def callGeminiDirect_def del: gemini_loop.simps)
  then show ?thesis by (simp only: gemini_loop_returns)
qed

lemma sent_log_msg [simp]: "sent (log_msg m st) = sent st"
  by (simp add: log_msg_def)

lemma fallback_gemini:
  assumes mode: "API_MODE E \<noteq> ''openrouter''"
    and A: "net E (sent st) (gemini_request (GEMINI_URL E) prompt) = Response False bA"
    and B: "net E (Suc (sent st)) (gemini_request (GEMINI_FALLBACK E) prompt)
              = Response True (JsonBody data)"
    and T: "gemini_text data = Some (JStr t)" and N: "trim t \<noteq> []"
  shows "callLLM E prompt st
         = (Inr (Some (trim t)),
            st\<lparr>trace := trace st @ [Fetch (gemini_request (GEMINI_URL E) prompt),
                                     Fetch (gemini_request (GEMINI_FALLBACK E) prompt)],
               sent := sent st + 2\<rparr>)"
  using assms
  by (simp add: callLLM_def callGeminiDirect_def gemini_attempt_def fetch_def trimmed_text_cases)

lemma fallback_openrouter:
  assumes mode: "API_MODE E = ''openrouter''"
    and A: "net E (sent st) (openrouter_request E ''google/gemini-2.0-flash-exp:free'' prompt)
              = Response False bA"
    and B: "net E (Suc (sent st)) (openrouter_request E ''google/gemma-3-1b-it:free'' prompt)
              = Response True (JsonBody data)"
    and T: "openrouter_text data = Some (JStr t)" and N: "trim t \<noteq> []"
  shows "callLLM E prompt st
         = (Inr (Some (trim t)),
            st\<lparr>trace := trace st @ [Fetch (openrouter_request E ''google/gemini-2.0-flash-exp:free'' prompt),
                                     Fetch (openrouter_request E ''google/gemma-3-1b-it:free'' prompt)],
               sent := sent st + 2\<rparr>)"
  using assms
  by (simp add: callLLM_def callOpenRouter_def openrouter_attempt_def fetch_def trimmed_text_cases)

lemma report_draft_text:
  "d \<noteq> [] \<Longrightarrow> report_draft a (Some d) st
     = st\<lparr>trace := trace st @ [Result (DraftBlock d (url a)),
             Logged (''Draft generated for: '' @ title a @ '' ('' @ show_nat (length d) @ '' chars)'')]\<rparr>"
  by (simp add: report_draft_def addResult_def log_msg_def)

lemma primary_answer:
  assumes A: "net E (sent st) (endpoint_requests E prompt ! 0) = Response True (JsonBody data)"
    and T: "reply_text E data = Some (JStr t)"
    and N: "trim t \<noteq> []"
  shows "callLLM E prompt st
         = (Inr (Some (trim t)),
            st\<lparr>trace := trace st @ [Fetch (endpoint_requests E prompt ! 0)], sent := sent st + 1\<rparr>)"
  using assms
  by (simp add: callLLM_def callGeminiDirect_def callOpenRouter_def gemini_attempt_def
        openrouter_attempt_def fetch_def trimmed_text_cases endpoint_requests_def reply_text_def
      split: if_splits)

lemma fallback_answer:
  assumes A: "net E (sent st) (endpoint_requests E prompt ! 0) = Response False bA"
    and B: "net E (sent st + 1) (endpoint_requests E prompt ! 1) = Response True (JsonBody data)"
    and T: "reply_text E data = Some (JStr t)"
    and N: "trim t \<noteq> []"
  shows "callLLM E prompt st
           = (Inr (Some (trim t)),
              st\<lparr>trace := trace st @ map Fetch (endpoint_requests E prompt), sent := sent st + 2\<rparr>)"
proof (cases "API_MODE E = ''openrouter''")
  case True
  with A B T have "net E (sent st) (openrouter_request E ''google/gemini-2.0-flash-exp:free'' prompt)
              = Response False bA"
     "net E (Suc (sent st)) (openrouter_request E ''google/gemma-3-1b-it:free'' prompt)
              = Response True (JsonBody data)"
     "openrouter_text data = Some (JStr t)"
    by (simp_all add: endpoint_requests_def reply_text_def)
  from fallback_openrouter [OF True this N] True
  show ?thesis by (simp add: endpoint_requests_def)
next
  case False
  with A B T have "net E (sent st) (gemini_request (GEMINI_URL E) prompt) = Response False bA"
     "net E (Suc (sent st)) (gemini_request (GEMINI_FALLBACK E) prompt)
              = Response True (JsonBody data)"
     "gemini_text data = Some (JStr t)"
    by (simp_all add: endpoint_requests_def reply_text_def)
  from fallback_gemini [OF False this N] False
  show ?thesis by (simp add: endpoint_requests_def)
qed

lemma draft_loop_step:
  assumes c: "callLLM E (draft_prompt a)
                (st\<lparr>trace := trace st @ [Status (starting_status (i + 1) n (title a)),
                                          Logged (starting_status (i + 1) n (title a)),
                                          Result (RecordHeader (i + 1) (title a) (course a))]\<rparr>)
              = (Inr (Some d),
                 st\<lparr>trace := trace st @ [Status (starting_status (i + 1) n (title a)),
                                          Logged (starting_status (i + 1) n (title a)),
                                          Result (RecordHeader (i + 1) (title a) (course a))] @ fs,
                    sent := sent st + k\<rparr>)"
    and d: "d \<noteq> []"
  shows "draft_loop E n i (a # as) st
         = (draft_loop E n (i + 1) as
             (st\<lparr>trace := trace st @
                    [Status (starting_status (i + 1) n (title a)),
                     Logged (starting_status (i + 1) n (title a)),
                     Result (RecordHeader (i + 1) (title a) (course a))]
                    @ fs
                    @ [Result (DraftBlock d (url a)),
                       Logged (''Draft generated for: '' @ title a @ '' (''
                               @ show_nat (length d) @ '' chars)'')]
                    @ (if i < n - 1 then [Sleep 2000] else []),
                  sent := sent st + k\<rparr>))"
    (is "_ = ?rhs")
proof -
  have s: "addResult (RecordHeader (i + 1) (title a) (course a))
             (setStatus (''['' @ show_nat (i + 1) @ ''/'' @ show_nat n @ ''] Drafting: '' @ title a) st)
           = st\<lparr>trace := trace st @ [Status (starting_status (i + 1) n (title a)),
                                          Logged (starting_status (i + 1) n (title a)),
                                          Result (RecordHeader (i + 1) (title a) (course a))]\<rparr>"
    by (simp add: addResult_def setStatus_def log_msg_def starting_status_def)
  have "draft_loop E n i (a # as) st
        = (case callLLM E (draft_prompt a)
                  (addResult (RecordHeader (i + 1) (title a) (course a))
                     (setStatus (''['' @ show_nat (i + 1) @ ''/'' @ show_nat n @ ''] Drafting: '' @ title a) st)) of
             (Inl e, st3) \<Rightarrow> (Inl e, st3)
           | (Inr draft, st3) \<Rightarrow>
               draft_loop E n (i + 1) as
                 (if i < n - 1 then sleep 2000 (report_draft a draft st3) else report_draft a draft st3))"
    by (simp only: draft_loop.simps Let_def generateDraft_def)
  also have "\<dots> = draft_loop E n (i + 1) as
                 (if i < n - 1
                  then sleep 2000 (report_draft a (Some d)
                           (st\<lparr>trace := trace st @ [Status (starting_status (i + 1) n (title a)),
                                          Logged (starting_status (i + 1) n (title a)),
                                          Result (RecordHeader (i + 1) (title a) (course a))] @ fs,
                    sent := sent st + k\<rparr>))
                  else report_draft a (Some d) (st\<lparr>trace := trace st @ [Status (starting_status (i + 1) n (title a)),
                                          Logged (starting_status (i + 1) n (title a)),
                                          Result (RecordHeader (i + 1) (title a) (course a))] @ fs,
                    sent := sent st + k\<rparr>))"
    by (simp only: s c prod.case sum.case)
  also have "\<dots> = ?rhs"
    by (cases st) (simp add: report_draft_text [OF d] sleep_def del: show_nat.simps)
  finally show ?thesis .
qed

lemma shown_append [simp]: "shown (xs @ ys) = shown xs @ shown ys"
  by (simp add: shown_def)

lemma shown_Nil [simp]: "shown [] = []"
  by (simp add: shown_def)

lemma shown_Cons [simp]:
  "shown (e # es) = (case e of Fetch r \<Rightarrow> shown es | _ \<Rightarrow> e # shown es)"
  by (simp add: shown_def split: event.splits)

lemma shown_Fetch [simp]: "shown (map Fetch rs) = []"
  by (induction rs) simp_all

lemma gemini_attempt_failed:
  assumes "API_MODE E \<noteq> ''openrouter''"
    and "endpoint_failed E (net E (sent st) (gemini_request u prompt))"
  shows "\<exists>x st1. gemini_attempt E prompt u st = (x, st1) \<and> sent st1 = Suc (sent st)
           \<and> (\<forall>t. x \<noteq> Inr (Returned t))"
proof (cases "net E (sent st) (gemini_request u prompt)")
  case (Rejected e)
  then show ?thesis by (simp add: gemini_attempt_def fetch_def)
next
  case (Response ok b)
  show ?thesis
  proof (cases b)
    case (BadBody e)
    with Response show ?thesis by (simp add: gemini_attempt_def fetch_def)
  next
    case (JsonBody data)
    with Response assms show ?thesis
      by (auto simp: gemini_attempt_def fetch_def reply_text_def trimmed_text_cases
               split: option.splits json.splits)
  qed
qed

lemma gemini_loop_skip:
  assumes "gemini_attempt E prompt u st = (x, st1)" and "\<forall>t. x \<noteq> Inr (Returned t)"
  shows "\<exists>st2. sent st2 = sent st1 \<and> gemini_loop E prompt (u # us) st = gemini_loop E prompt us st2"
proof (cases x)
  case (Inl e)
  with assms(1) have "gemini_loop E prompt (u # us) st
      = gemini_loop E prompt us (log_msg (''Gemini error: '' @ message e) st1)"
    by simp
  then show ?thesis by (metis sent_log_msg)
next
  case (Inr c)
  with assms have "gemini_loop E prompt (u # us) st = gemini_loop E prompt us st1"
    by (cases c) simp_all
  then show ?thesis by blast
qed

lemma all_failed_gemini:
  assumes mode: "API_MODE E \<noteq> ''openrouter''"
    and A: "endpoint_failed E (net E (sent st) (gemini_request (GEMINI_URL E) prompt))"
    and B: "endpoint_failed E (net E (Suc (sent st)) (gemini_request (GEMINI_FALLBACK E) prompt))"
  shows "fst (callLLM E prompt st) = Inr None"
proof -
  obtain x1 st1 where 1: "gemini_attempt E prompt (GEMINI_URL E) st = (x1, st1)"
      and s1: "sent st1 = Suc (sent st)" and n1: "\<forall>t. x1 \<noteq> Inr (Returned t)"
    using gemini_attempt_failed [OF mode A] by blast
  obtain st1' where s1': "sent st1' = sent st1"
      and l1: "gemini_loop E prompt [GEMINI_URL E, GEMINI_FALLBACK E] st
               = gemini_loop E prompt [GEMINI_FALLBACK E] st1'"
    using gemini_loop_skip [OF 1 n1] by blast
  have B': "endpoint_failed E (net E (sent st1') (gemini_request (GEMINI_FALLBACK E) prompt))"
    using B s1 s1' by simp
  obtain x2 st2 where 2: "gemini_attempt E prompt (GEMINI_FALLBACK E) st1' = (x2, st2)"
      and n2: "\<forall>t. x2 \<noteq> Inr (Returned t)"
    using gemini_attempt_failed [OF mode B'] by blast
  obtain st2' where l2: "gemini_loop E prompt [GEMINI_FALLBACK E] st1' = gemini_loop E prompt [] st2'"
    using gemini_loop_skip [OF 2 n2] by blast
  have "callLLM E prompt st = gemini_loop E prompt [] st2'"
    using mode l1 l2 by (simp add: callLLM_def callGeminiDirect_def del: gemini_loop.simps)
  then show ?thesis by simp
qed

lemma openrouter_attempt_failed:
  assumes "API_MODE E = ''openrouter''"
    and "endpoint_failed E (net E (sent st) (openrouter_request E m prompt))"
  shows "\<exists>x st1. openrouter_attempt E prompt m st = (x, st1) \<and> sent st1 = Suc (sent st)
           \<and> (\<forall>t. x \<noteq> Inr (Returned t))"
proof (cases "net E (sent st) (openrouter_request E m prompt)")
  case (Rejected e)
  then show ?thesis by (simp add: openrouter_attempt_def fetch_def)
next
  case (Response ok b)
  show ?thesis
  proof (cases b)
    case (BadBody e)
    with Response show ?thesis by (simp add: openrouter_attempt_def fetch_def)
  next
    case (JsonBody data)
    with Response assms show ?thesis
      by (auto simp: openrouter_attempt_def fetch_def reply_text_def trimmed_text_cases
               split: option.splits json.splits)
  qed
qed

lemma openrouter_loop_skip:
  assumes "openrouter_attempt E prompt m st = (x, st1)" and "\<forall>t. x \<noteq> Inr (Returned t)"
  shows "\<exists>st2. sent st2 = sent st1
           \<and> openrouter_loop E prompt (m # ms) st = openrouter_loop E prompt ms st2"
proof (cases x)
  case (Inl e)
  with assms(1) have "openrouter_loop E prompt (m # ms) st
      = openrouter_loop E prompt ms (log_msg (''OpenRouter error: '' @ message e) st1)"
    by simp
  then show ?thesis by (metis sent_log_msg)
next
  case (Inr c)
  with assms have "openrouter_loop E prompt (m # ms) st = openrouter_loop E prompt ms st1"
    by (cases c) simp_all
  then show ?thesis by blast
qed

lemma all_failed_openrouter:
  assumes mode: "API_MODE E = ''openrouter''"
    and A: "endpoint_failed E (net E (sent st)
              (openrouter_request E ''google/gemini-2.0-flash-exp:free'' prompt))"
    and B: "endpoint_failed E (net E (Suc (sent st))
              (openrouter_request E ''google/gemma-3-1b-it:free'' prompt))"
  shows "fst (callLLM E prompt st) = Inr None"
proof -
  obtain x1 st1 where 1: "openrouter_attempt E prompt ''google/gemini-2.0-flash-exp:free'' st = (x1, st1)"
      and s1: "sent st1 = Suc (sent st)" and n1: "\<forall>t. x1 \<noteq> Inr (Returned t)"
    using openrouter_attempt_failed [OF mode A] by blast
  obtain st1' where s1': "sent st1' = sent st1"
      and l1: "openrouter_loop E prompt
                 [''google/gemini-2.0-flash-exp:free'', ''google/gemma-3-1b-it:free''] st
               = openrouter_loop E prompt [''google/gemma-3-1b-it:free''] st1'"
    using openrouter_loop_skip [OF 1 n1] by blast
  have B': "endpoint_failed E (net E (sent st1')
              (openrouter_request E ''google/gemma-3-1b-it:free'' prompt))"
    using B s1 s1' by simp
  obtain x2 st2 where 2: "openrouter_attempt E prompt ''google/gemma-3-1b-it:free'' st1' = (x2, st2)"
      and n2: "\<forall>t. x2 \<noteq> Inr (Returned t)"
    using openrouter_attempt_failed [OF mode B'] by blast
  obtain st2' where l2: "openrouter_loop E prompt [''google/gemma-3-1b-it:free''] st1'
                         = openrouter_loop E prompt [] st2'"
    using openrouter_loop_skip [OF 2 n2] by blast
  have "callLLM E prompt st = openrouter_loop E prompt [] st2'"
    using mode l1 l2 by (simp add: callLLM_def callOpenRouter_def del: openrouter_loop.simps)
  then show ?thesis by simp
qed

text \<open>
  Claim C4.  \<open>callLLM\<close> never throws to its caller: for every prompt, configuration,
  network and state it returns a text or \<open>null\<close>.  When both endpoints of the configured
  provider fail (a network failure, a non-success status, or an extracted text that is
  absent, empty or white space only) it returns \<open>null\<close>.
\<close>

theorem callLLM_never_throws:
  "(\<exists>r st'. callLLM E prompt st = (Inr r, st'))
   \<and> (endpoint_failed E (net E (sent st) (endpoint_requests E prompt ! 0))
        \<and> endpoint_failed E (net E (sent st + 1) (endpoint_requests E prompt ! 1))
      \<longrightarrow> fst (callLLM E prompt st) = Inr None)"
proof (cases "API_MODE E = ''openrouter''")
  case True
  with all_failed_openrouter [OF True, of st prompt] callLLM_returns [of E prompt st]
  show ?thesis by (simp add: endpoint_requests_def)
next
  case False
  with all_failed_gemini [OF False, of st prompt] callLLM_returns [of E prompt st]
  show ?thesis by (simp add: endpoint_requests_def)
qed

theorem callLLM_never_throws_witness:
  "endpoint_failed (sample_env empty_page nothing_answers)
     (net (sample_env empty_page nothing_answers) (sent start)
        (endpoint_requests (sample_env empty_page nothing_answers) (draft_prompt sample_record) ! 0))
   \<and> endpoint_failed (sample_env empty_page nothing_answers)
     (net (sample_env empty_page nothing_answers) (sent start + 1)
        (endpoint_requests (sample_env empty_page nothing_answers) (draft_prompt sample_record) ! 1))
   \<and> fst (callLLM (sample_env empty_page nothing_answers) (draft_prompt sample_record) start) = Inr None"
proof -
  have a: "endpoint_failed (sample_env empty_page nothing_answers)
     (net (sample_env empty_page nothing_answers) (sent start)
        (endpoint_requests (sample_env empty_page nothing_answers) (draft_prompt sample_record) ! 0))"
    by code_simp
  have b: "endpoint_failed (sample_env empty_page nothing_answers)
     (net (sample_env empty_page nothing_answers) (sent start + 1)
        (endpoint_requests (sample_env empty_page nothing_answers) (draft_prompt sample_record) ! 1))"
    by code_simp
  from callLLM_never_throws [of "sample_env empty_page nothing_answers"
      "draft_prompt sample_record" start] a b
  show ?thesis by blast
qed

text \<open>
  Claim C3, as the claim states it, fails.  On a network where the first endpoint answers
  with a non-success status and the fallback answers with the text \<open>Done.\<close> followed by a
  line feed, \<open>callLLM\<close> returns \<open>Done.\<close>, which is not the text the fallback sent; and what
  the run shows the operator for the record is what it shows when the first endpoint
  itself sends that text, so the outcome does not tell which endpoint was used.
\<close>

theorem fallback_outcome_names_no_endpoint:
  "net (sample_env empty_page (fallback_answers (''Done.'' @ nl))) 0
       (endpoint_requests (sample_env empty_page (fallback_answers (''Done.'' @ nl)))
          (draft_prompt sample_record) ! 0)
     = Response False (JsonBody JNull)
   \<and> net (sample_env empty_page (fallback_answers (''Done.'' @ nl))) 1
       (endpoint_requests (sample_env empty_page (fallback_answers (''Done.'' @ nl)))
          (draft_prompt sample_record) ! 1)
     = Response True (gemini_reply (''Done.'' @ nl))
   \<and> fst (callLLM (sample_env empty_page (fallback_answers (''Done.'' @ nl)))
            (draft_prompt sample_record) start) = Inr (Some ''Done.'')
   \<and> ''Done.'' \<noteq> ''Done.'' @ nl
   \<and> shown (trace (snd (draft_loop (sample_env empty_page (fallback_answers (''Done.'' @ nl)))
                          1 0 [sample_record] start)))
     = shown (trace (snd (draft_loop (sample_env empty_page (primary_answers (''Done.'' @ nl)))
                          1 0 [sample_record] start)))"
proof -
  have 1: "net (sample_env empty_page (fallback_answers (''Done.'' @ nl))) 0
       (endpoint_requests (sample_env empty_page (fallback_answers (''Done.'' @ nl)))
          (draft_prompt sample_record) ! 0)
     = Response False (JsonBody JNull)"
    by code_simp
  have 2: "net (sample_env empty_page (fallback_answers (''Done.'' @ nl))) 1
       (endpoint_requests (sample_env empty_page (fallback_answers (''Done.'' @ nl)))
          (draft_prompt sample_record) ! 1)
     = Response True (gemini_reply (''Done.'' @ nl))"
    by code_simp
  have 3: "fst (callLLM (sample_env empty_page (fallback_answers (''Done.'' @ nl)))
            (draft_prompt sample_record) start) = Inr (Some ''Done.'')"
    by code_simp
  have 4: "''Done.'' \<noteq> ''Done.'' @ nl"
    by (simp add: nl_def)
  have 5: "shown (trace (snd (draft_loop (sample_env empty_page (fallback_answers (''Done.'' @ nl)))
                          1 0 [sample_record] start)))
     = shown (trace (snd (draft_loop (sample_env empty_page (primary_answers (''Done.'' @ nl)))
                          1 0 [sample_record] start)))"
    by code_simp
  from 1 2 3 4 5 show ?thesis by blast
qed

text \<open>
  Claim C3, amended.  When the first endpoint of the configured provider answers with a
  non-success status and the second answers with a text that has something other than
  white space in it, \<open>callLLM\<close> sends exactly those two requests and returns the second
  one's text with the white space at both ends removed.  When the prompt is that of a
  record, the turn of the loop for the record announces it, opens its block, sends the two
  requests, closes the block with that text and the address of the record, logs the title
  and the length of the text, and pauses if a record follows.  Nothing of this names an
  endpoint: what the operator is shown for the record is what is shown when the first
  endpoint of any provider answers with a text that is the same once trimmed.
\<close>

theorem fallback_returns_trimmed_text:
  assumes A: "net E (sent st) (endpoint_requests E prompt ! 0) = Response False bA"
    and B: "net E (sent st + 1) (endpoint_requests E prompt ! 1) = Response True (JsonBody data)"
    and T: "reply_text E data = Some (JStr t)"
    and N: "trim t \<noteq> []"
  shows "callLLM E prompt st
           = (Inr (Some (trim t)),
              st\<lparr>trace := trace st @ map Fetch (endpoint_requests E prompt), sent := sent st + 2\<rparr>)
         \<and> (prompt = draft_prompt a \<longrightarrow>
              draft_loop E n i (a # as) st
              = draft_loop E n (i + 1) as
                  (st\<lparr>trace := trace st @
                         [Status (starting_status (i + 1) n (title a)),
                          Logged (starting_status (i + 1) n (title a)),
                          Result (RecordHeader (i + 1) (title a) (course a))]
                         @ map Fetch (endpoint_requests E prompt)
                         @ [Result (DraftBlock (trim t) (url a)),
                            Logged (''Draft generated for: '' @ title a @ '' (''
                                    @ show_nat (length (trim t)) @ '' chars)'')]
                         @ (if i < n - 1 then [Sleep 2000] else []),
                       sent := sent st + 2\<rparr>)
              \<and> (\<forall>E' st' data' t'.
                    net E' (sent st') (endpoint_requests E' prompt ! 0) = Response True (JsonBody data')
                    \<and> reply_text E' data' = Some (JStr t') \<and> trim t' = trim t
                    \<and> shown (trace st') = shown (trace st)
                    \<longrightarrow> shown (trace (snd (draft_loop E' n i [a] st')))
                        = shown (trace (snd (draft_loop E n i [a] st)))))"
proof -
  let ?head = "[Status (starting_status (i + 1) n (title a)),
                Logged (starting_status (i + 1) n (title a)),
                Result (RecordHeader (i + 1) (title a) (course a))]"
  let ?tail = "[Result (DraftBlock (trim t) (url a)),
                Logged (''Draft generated for: '' @ title a @ '' (''
                        @ show_nat (length (trim t)) @ '' chars)'')]
               @ (if i < n - 1 then [Sleep 2000] else [])"
  have c: "callLLM E prompt s
           = (Inr (Some (trim t)),
              s\<lparr>trace := trace s @ map Fetch (endpoint_requests E prompt), sent := sent s + 2\<rparr>)"
    if "sent s = sent st" for s
    using fallback_answer [of E s prompt bA "data" t] A B T N that by simp
  have step: "draft_loop E n i (a # bs) st
              = draft_loop E n (i + 1) bs
                  (st\<lparr>trace := trace st @ ?head @ map Fetch (endpoint_requests E prompt) @ ?tail,
                       sent := sent st + 2\<rparr>)"
    if p: "prompt = draft_prompt a" for bs
  proof -
    have "callLLM E (draft_prompt a) (st\<lparr>trace := trace st @ ?head\<rparr>)
          = (Inr (Some (trim t)),
             st\<lparr>trace := trace st @ ?head @ map Fetch (endpoint_requests E prompt),
                sent := sent st + 2\<rparr>)"
      using c [of "st\<lparr>trace := trace st @ ?head\<rparr>"] p by simp
    from draft_loop_step [OF this N] show ?thesis by simp
  qed
  have other: "shown (trace (snd (draft_loop E' n i [a] st')))
               = shown (trace (snd (draft_loop E n i [a] st)))"
    if p: "prompt = draft_prompt a"
      and A': "net E' (sent st') (endpoint_requests E' prompt ! 0) = Response True (JsonBody data')"
      and T': "reply_text E' data' = Some (JStr t')" and e: "trim t' = trim t"
      and s: "shown (trace st') = shown (trace st)"
    for E' st' data' t'
  proof -
    from N e have N': "trim t' \<noteq> []" by simp
    have "callLLM E' (draft_prompt a) (st'\<lparr>trace := trace st' @ ?head\<rparr>)
          = (Inr (Some (trim t')),
             st'\<lparr>trace := trace st' @ ?head @ [Fetch (endpoint_requests E' prompt ! 0)],
                 sent := sent st' + 1\<rparr>)"
      using primary_answer [of E' "st'\<lparr>trace := trace st' @ ?head\<rparr>" prompt data' t'] A' T' N' p
      by simp
    from draft_loop_step [OF this N', of "[]"]
    have "snd (draft_loop E' n i [a] st')
          = st'\<lparr>trace := trace st' @ ?head @ [Fetch (endpoint_requests E' prompt ! 0)]
                         @ [Result (DraftBlock (trim t') (url a)),
                            Logged (''Draft generated for: '' @ title a @ '' (''
                                    @ show_nat (length (trim t')) @ '' chars)'')]
                         @ (if i < n - 1 then [Sleep 2000] else []),
                 sent := sent st' + 1\<rparr>"
      by (simp only: draft_loop.simps(1) snd_conv)
    then have "shown (trace (snd (draft_loop E' n i [a] st')))
          = shown (trace st') @ shown ?head @ shown ?tail"
      by (simp add: e del: draft_loop.simps)
    moreover from step [OF p, of "[]"]
    have "snd (draft_loop E n i [a] st)
          = st\<lparr>trace := trace st @ ?head @ map Fetch (endpoint_requests E prompt) @ ?tail,
                       sent := sent st + 2\<rparr>"
      by (simp only: draft_loop.simps(1) snd_conv)
    then have "shown (trace (snd (draft_loop E n i [a] st)))
          = shown (trace st) @ shown ?head @ shown ?tail"
      by (simp del: draft_loop.simps)
    ultimately show ?thesis by (simp only: s)
  qed
  from c [of st] step other show ?thesis by blast
qed

theorem fallback_returns_trimmed_text_witness:
  "net (sample_env empty_page (fallback_answers (''Done.'' @ nl))) (sent start)
       (endpoint_requests (sample_env empty_page (fallback_answers (''Done.'' @ nl)))
          (draft_prompt sample_record) ! 0)
     = Response False (JsonBody JNull)
   \<and> net (sample_env empty_page (fallback_answers (''Done.'' @ nl))) (sent start + 1)
       (endpoint_requests (sample_env empty_page (fallback_answers (''Done.'' @ nl)))
          (draft_prompt sample_record) ! 1)
     = Response True (JsonBody (JObj [(''candidates'',
         JArr [JObj [(''content'', JObj [(''parts'', JArr [JObj [(''text'', JStr (''Done.'' @ nl))]])])]])]))
   \<and> trim (''Done.'' @ nl) = ''Done.''
   \<and> fst (callLLM (sample_env empty_page (fallback_answers (''Done.'' @ nl)))
            (draft_prompt sample_record) start) = Inr (Some ''Done.'')
   \<and> shown (trace (snd (draft_loop (sample_env empty_page (fallback_answers (''Done.'' @ nl)))
                          1 0 [sample_record] start)))
     = [Status ''[1/1] Drafting: Chapter 5 Reading Response'',
        Logged ''[1/1] Drafting: Chapter 5 Reading Response'',
        Result (RecordHeader 1 ''Chapter 5 Reading Response'' ''World Literature, Period 3''),
        Result (DraftBlock ''Done.'' ''https://classroom.google.com/c/NzE/a/ODI/details''),
        Logged ''Draft generated for: Chapter 5 Reading Response (5 chars)'']
   \<and> sent (snd (draft_loop (sample_env empty_page (fallback_answers (''Done.'' @ nl)))
                   1 0 [sample_record] start)) = 2
   \<and> net (sample_env empty_page (primary_answers ''Done.'')) (sent start)
       (endpoint_requests (sample_env empty_page (primary_answers ''Done.''))
          (draft_prompt sample_record) ! 0)
     = Response True (gemini_reply ''Done.'')
   \<and> shown (trace (snd (draft_loop (sample_env empty_page (primary_answers ''Done.''))
                          1 0 [sample_record] start)))
     = shown (trace (snd (draft_loop (sample_env empty_page (fallback_answers (''Done.'' @ nl)))
                          1 0 [sample_record] start)))"
proof -
  let ?E = "sample_env empty_page (fallback_answers (''Done.'' @ nl))"
  let ?E' = "sample_env empty_page (primary_answers ''Done.'')"
  let ?data = "JObj [(''candidates'',
         JArr [JObj [(''content'', JObj [(''parts'', JArr [JObj [(''text'', JStr (''Done.'' @ nl))]])])]])]"
  let ?data' = "JObj [(''candidates'',
         JArr [JObj [(''content'', JObj [(''parts'', JArr [JObj [(''text'', JStr ''Done.'')]])])]])]"
  have a: "net ?E (sent start) (endpoint_requests ?E (draft_prompt sample_record) ! 0)
             = Response False (JsonBody JNull)"
    by code_simp
  have b: "net ?E (sent start + 1) (endpoint_requests ?E (draft_prompt sample_record) ! 1)
             = Response True (JsonBody ?data)"
    by code_simp
  have t: "reply_text ?E ?data = Some (JStr (''Done.'' @ nl))"
    by code_simp
  have r: "trim (''Done.'' @ nl) = ''Done.''"
    by code_simp
  have n: "trim (''Done.'' @ nl) \<noteq> []"
    by (simp only: r) simp
  have a': "net ?E' (sent start) (endpoint_requests ?E' (draft_prompt sample_record) ! 0)
             = Response True (JsonBody ?data')"
    by code_simp
  have g: "gemini_reply ''Done.'' = JsonBody ?data'"
    by (simp add: gemini_reply_def)
  have t': "reply_text ?E' ?data' = Some (JStr ''Done.'')"
    by code_simp
  have r': "trim ''Done.'' = trim (''Done.'' @ nl)"
    by code_simp
  have s: "show_nat (length ''Done.'') = ''5''"
    by code_simp
  have h: "starting_status (0 + 1) 1 ''Chapter 5 Reading Response''
           = ''[1/1] Drafting: Chapter 5 Reading Response''"
    by code_simp
  have ti: "title sample_record = ''Chapter 5 Reading Response''"
    and co: "course sample_record = ''World Literature, Period 3''"
    and u: "url sample_record = ''https://classroom.google.com/c/NzE/a/ODI/details''"
    by (simp_all add: sample_record_def)
  note f = fallback_returns_trimmed_text [OF a b t n, of sample_record 1 0 "[]"]
  from f have "callLLM ?E (draft_prompt sample_record) start
           = (Inr (Some (trim (''Done.'' @ nl))),
              start\<lparr>trace := trace start @ map Fetch (endpoint_requests ?E (draft_prompt sample_record)),
                    sent := sent start + 2\<rparr>)"
    by blast
  then have 1: "fst (callLLM ?E (draft_prompt sample_record) start) = Inr (Some ''Done.'')"
    by (simp only: r fst_conv)
  from f have "draft_loop ?E 1 0 [sample_record] start
      = draft_loop ?E 1 (0 + 1) []
         (start\<lparr>trace := trace start @
                         [Status (starting_status (0 + 1) 1 (title sample_record)),
                          Logged (starting_status (0 + 1) 1 (title sample_record)),
                          Result (RecordHeader (0 + 1) (title sample_record) (course sample_record))]
                         @ map Fetch (endpoint_requests ?E (draft_prompt sample_record))
                         @ [Result (DraftBlock (trim (''Done.'' @ nl)) (url sample_record)),
                            Logged (''Draft generated for: '' @ title sample_record @ '' (''
                                    @ show_nat (length (trim (''Done.'' @ nl))) @ '' chars)'')]
                         @ (if (0::nat) < 1 - 1 then [Sleep 2000] else []),
                       sent := sent start + 2\<rparr>)"
    by blast
  then have l: "snd (draft_loop ?E 1 0 [sample_record] start)
      = start\<lparr>trace := trace start @
                         [Status (starting_status (0 + 1) 1 (title sample_record)),
                          Logged (starting_status (0 + 1) 1 (title sample_record)),
                          Result (RecordHeader (0 + 1) (title sample_record) (course sample_record))]
                         @ map Fetch (endpoint_requests ?E (draft_prompt sample_record))
                         @ [Result (DraftBlock (trim (''Done.'' @ nl)) (url sample_record)),
                            Logged (''Draft generated for: '' @ title sample_record @ '' (''
                                    @ show_nat (length (trim (''Done.'' @ nl))) @ '' chars)'')],
                       sent := sent start + 2\<rparr>"
    by (simp only: draft_loop.simps(1) snd_conv) simp
  have 2: "shown (trace (snd (draft_loop ?E 1 0 [sample_record] start)))
     = [Status ''[1/1] Drafting: Chapter 5 Reading Response'',
        Logged ''[1/1] Drafting: Chapter 5 Reading Response'',
        Result (RecordHeader 1 ''Chapter 5 Reading Response'' ''World Literature, Period 3''),
        Result (DraftBlock ''Done.'' ''https://classroom.google.com/c/NzE/a/ODI/details''),
        Logged ''Draft generated for: Chapter 5 Reading Response (5 chars)'']"
    by (simp only: l h r s ti co u) (simp add: start_def)
  have 3: "sent (snd (draft_loop ?E 1 0 [sample_record] start)) = 2"
    by (simp only: l) (simp add: start_def)
  from f a' t' r' have 4: "shown (trace (snd (draft_loop ?E' 1 0 [sample_record] start)))
     = shown (trace (snd (draft_loop ?E 1 0 [sample_record] start)))"
    by blast
  from a b r 1 2 3 a' 4 show ?thesis by (simp only: g)
qed


section \<open>The loop over the records\<close>

lemma marks_append [simp]: "marks (xs @ ys) = marks xs @ marks ys"
  by (induction xs) (auto split: option.splits)

lemma marks_log_msg [simp]: "marks (trace (log_msg m st)) = marks (trace st)"
  by (simp add: log_msg_def)

lemma gemini_attempt_marks:
  "gemini_attempt E p u st = (x, st') \<Longrightarrow> marks (trace st') = marks (trace st)"
  by (auto simp: gemini_attempt_def fetch_def split: fetch_outcome.splits body.splits if_splits)

lemma gemini_loop_marks:
  "gemini_loop E p us st = (r, st') \<Longrightarrow> marks (trace st') = marks (trace st)"
proof (induction us arbitrary: st)
  case Nil
  then show ?case by simp
next
  case (Cons u us)
  obtain x st1 where a: "gemini_attempt E p u st = (x, st1)" by (cases "gemini_attempt E p u st")
  note m = gemini_attempt_marks [OF a]
  show ?case
  proof (cases x)
    case (Inl e)
    with a Cons.prems have "gemini_loop E p us (log_msg (''Gemini error: '' @ message e) st1) = (r, st')"
      by simp
    from Cons.IH [OF this] m show ?thesis by simp
  next
    case (Inr c)
    show ?thesis
    proof (cases c)
      case (Returned t)
      with Inr a Cons.prems m show ?thesis by simp
    next
      case Continued
      with Inr a Cons.prems have "gemini_loop E p us st1 = (r, st')" by simp
      from Cons.IH [OF this] m show ?thesis by simp
    next
      case Normal
      with Inr a Cons.prems have "gemini_loop E p us st1 = (r, st')" by simp
      from Cons.IH [OF this] m show ?thesis by simp
    qed
  qed
qed

lemma openrouter_attempt_marks:
  "openrouter_attempt E p m st = (x, st') \<Longrightarrow> marks (trace st') = marks (trace st)"
  by (auto simp: openrouter_attempt_def fetch_def split: fetch_outcome.splits body.splits if_splits)

lemma openrouter_loop_marks:
  "openrouter_loop E p ms st = (r, st') \<Longrightarrow> marks (trace st') = marks (trace st)"
proof (induction ms arbitrary: st)
  case Nil
  then show ?case by simp
next
  case (Cons u us)
  obtain x st1 where a: "openrouter_attempt E p u st = (x, st1)"
    by (cases "openrouter_attempt E p u st")
  note m = openrouter_attempt_marks [OF a]
  show ?case
  proof (cases x)
    case (Inl e)
    with a Cons.prems
    have "openrouter_loop E p us (log_msg (''OpenRouter error: '' @ message e) st1) = (r, st')"
      by simp
    from Cons.IH [OF this] m show ?thesis by simp
  next
    case (Inr c)
    show ?thesis
    proof (cases c)
      case (Returned t)
      with Inr a Cons.prems m show ?thesis by simp
    next
      case Continued
      with Inr a Cons.prems have "openrouter_loop E p us st1 = (r, st')" by simp
      from Cons.IH [OF this] m show ?thesis by simp
    next
      case Normal
      with Inr a Cons.prems have "openrouter_loop E p us st1 = (r, st')" by simp
      from Cons.IH [OF this] m show ?thesis by simp
    qed
  qed
qed

lemma callLLM_marks:
  "callLLM E p st = (r, st') \<Longrightarrow> marks (trace st') = marks (trace st)"
  by (auto simp: callLLM_def callGeminiDirect_def callOpenRouter_def
           simp del: gemini_loop.simps openrouter_loop.simps
           dest: gemini_loop_marks openrouter_loop_marks split: if_splits)

lemma report_draft_marks:
  "marks (trace (report_draft a d st)) = marks (trace st) @ [OutcomeMark]"
  by (simp add: report_draft_def addResult_def log_msg_def split: option.splits)

lemma draft_loop_marks:
  "\<exists>st'. draft_loop E n i rs st = (Inr (), st')
         \<and> marks (trace st') = marks (trace st) @ schedule_from n i rs"
proof (induction rs arbitrary: i st)
  case Nil
  show ?case by simp
next
  case (Cons a rs)
  let ?st2 = "addResult (RecordHeader (i + 1) (title a) (course a))
                (setStatus (''['' @ show_nat (i + 1) @ ''/'' @ show_nat n @ ''] Drafting: '' @ title a) st)"
  obtain d st3 where g: "generateDraft E a ?st2 = (Inr d, st3)"
    using callLLM_returns [of E "draft_prompt a" ?st2] by (auto simp: generateDraft_def)
  have m3: "marks (trace st3) = marks (trace st)
              @ [StartMark (starting_status (i + 1) n (title a)), BlockMark (i + 1) (title a) (course a)]"
    using callLLM_marks [of E "draft_prompt a" ?st2 "Inr d" st3] g
    by (simp add: generateDraft_def addResult_def setStatus_def log_msg_def starting_status_def)
  let ?st5 = "if i < n - 1 then sleep 2000 (report_draft a d st3) else report_draft a d st3"
  have m5: "marks (trace ?st5) = marks (trace st3) @ [OutcomeMark]
              @ (if i + 1 < n then [DelayMark 2000] else [])"
    by (auto simp: report_draft_marks sleep_def)
  from Cons.IH [of "i + 1" ?st5] obtain st' where
    l: "draft_loop E n (i + 1) rs ?st5 = (Inr (), st')"
    and m: "marks (trace st') = marks (trace ?st5) @ schedule_from n (i + 1) rs"
    by blast
  have "draft_loop E n i (a # rs) st = (Inr (), st')"
    using g l by (simp add: Let_def)
  moreover have "marks (trace st') = marks (trace st) @ schedule_from n i (a # rs)"
    using m m5 m3 by simp
  ultimately show ?case by blast
qed

lemma schedule_from_index:
  "i \<le> length rs \<Longrightarrow>
   schedule_from (length rs) i (drop i rs)
   = concat (map (\<lambda>i. [StartMark (starting_status (i + 1) (length rs) (title (rs ! i))),
                        BlockMark (i + 1) (title (rs ! i)) (course (rs ! i)),
                        OutcomeMark]
                       @ (if i + 1 < length rs then [DelayMark 2000] else []))
                 [i..<length rs])"
proof (induction "length rs - i" arbitrary: i)
  case 0
  then show ?case by simp
next
  case (Suc k)
  then have lt: "i < length rs" by simp
  then have d: "drop i rs = rs ! i # drop (Suc i) rs"
    by (simp add: Cons_nth_drop_Suc)
  have u: "[i..<length rs] = i # [Suc i..<length rs]"
    using lt by (simp add: upt_conv_Cons)
  have k: "k = length rs - Suc i" using Suc.hyps(2) by simp
  from Suc.hyps(1) [OF k] lt
  show ?case by (simp add: d u)
qed

lemma schedule_eq: "schedule rs = schedule_from (length rs) 0 rs"
  using schedule_from_index [of 0 rs] by (simp add: schedule_def)

lemma count_start: "length (filter is_start (schedule_from n i rs)) = length rs"
  by (induction rs arbitrary: i) (simp_all add: is_start_def)

lemma count_outcome: "length (filter is_outcome (schedule_from n i rs)) = length rs"
  by (induction rs arbitrary: i) (simp_all add: is_outcome_def)

lemma count_delay:
  "i + length rs = n \<Longrightarrow> length (filter is_delay (schedule_from n i rs)) = length rs - 1"
proof (induction rs arbitrary: i)
  case Nil
  show ?case by simp
next
  case (Cons a rs)
  from Cons.prems have "Suc i + length rs = n" by simp
  from Cons.IH [OF this] Cons.prems show ?case
    by (cases rs) (auto simp: is_delay_def)
qed

text \<open>
  Claim C5.  For a list of \<open>N \<ge> 1\<close> surviving records the loop runs to its end without
  throwing, and what it adds to the trace is, for the records in the order of discovery:
  the status line announcing record \<open>i\<close> of \<open>N\<close>, the block of the record with its outcome,
  and a pause of 2000 ms after every record but the last.  That makes \<open>N\<close> announcements,
  \<open>N\<close> outcomes and \<open>N - 1\<close> pauses.
\<close>

theorem draft_loop_paces:
  assumes "1 \<le> length rs"
  shows "\<exists>st'. draft_loop E (length rs) 0 rs st = (Inr (), st')
           \<and> marks (trace st') = marks (trace st) @ schedule rs
           \<and> length (filter is_start (schedule rs)) = length rs
           \<and> length (filter is_outcome (schedule rs)) = length rs
           \<and> length (filter is_delay (schedule rs)) = length rs - 1"
  using draft_loop_marks [of E "length rs" 0 rs st]
  by (auto simp: schedule_eq count_start count_outcome count_delay)

theorem draft_loop_paces_witness:
  "1 \<le> length [sample_record, second_record]
   \<and> fst (draft_loop (sample_env empty_page (fallback_answers ''Done.''))
            (length [sample_record, second_record]) 0 [sample_record, second_record] start)
     = Inr ()
   \<and> marks (trace (snd (draft_loop (sample_env empty_page (fallback_answers ''Done.''))
            (length [sample_record, second_record]) 0 [sample_record, second_record] start)))
     = [StartMark ''[1/2] Drafting: Chapter 5 Reading Response'',
        BlockMark 1 ''Chapter 5 Reading Response'' ''World Literature, Period 3'',
        OutcomeMark,
        DelayMark 2000,
        StartMark ''[2/2] Drafting: Lab report: density'',
        BlockMark 2 ''Lab report: density'' ''Chemistry, Block 2'',
        OutcomeMark]"
proof -
  let ?E = "sample_env empty_page (fallback_answers ''Done.'')"
  let ?rs = "[sample_record, second_record]"
  have h: "1 \<le> length ?rs"
    by simp
  from draft_loop_paces [OF h, of ?E start] obtain st' where
    a: "draft_loop ?E (length ?rs) 0 ?rs start = (Inr (), st')"
    and b: "marks (trace st') = marks (trace start) @ schedule ?rs"
    by blast
  have s: "schedule ?rs
     = [StartMark ''[1/2] Drafting: Chapter 5 Reading Response'',
        BlockMark 1 ''Chapter 5 Reading Response'' ''World Literature, Period 3'',
        OutcomeMark,
        DelayMark 2000,
        StartMark ''[2/2] Drafting: Lab report: density'',
        BlockMark 2 ''Lab report: density'' ''Chemistry, Block 2'',
        OutcomeMark]"
    by code_simp
  have e: "marks (trace start) = []"
    by (simp add: start_def)
  from h a b show ?thesis
    by (simp only: s e fst_conv snd_conv append_Nil)
qed


section \<open>The record extractor\<close>

lemma visit_link_cases:
  "visit_link l (seen, acc, R) =
     (if link_href l \<in> seen \<or> listing_href (link_href l) then (seen, acc, R)
      else (insert (link_href l) seen,
            if fst (shouldSkip R (title (link_record l)) (course (link_record l))) then acc
            else acc @ [link_record l],
            snd (shouldSkip R (title (link_record l)) (course (link_record l)))))"
  by (simp add: visit_link_def listing_href_def Let_def split: prod.splits)

lemma visit_links_shape:
  "visit_links ls (seen, acc, R) = (seen', acc', R') \<Longrightarrow>
   \<exists>ks. subseq ks ls \<and> acc' = acc @ map link_record ks \<and> distinct (map link_href ks)
        \<and> (\<forall>k\<in>set ks. link_href k \<notin> seen)
        \<and> seen' = seen \<union> {link_href l | l. l \<in> set ls \<and> \<not> listing_href (link_href l)}"
proof (induction ls arbitrary: seen acc R)
  case Nil
  then show ?case by auto
next
  case (Cons l ls)
  show ?case
  proof (cases "link_href l \<in> seen \<or> listing_href (link_href l)")
    case True
    with Cons.prems have "visit_links ls (seen, acc, R) = (seen', acc', R')"
      by (simp add: visit_link_cases)
    from Cons.IH [OF this] obtain ks where ks: "subseq ks ls" "acc' = acc @ map link_record ks"
      "distinct (map link_href ks)" "\<forall>k\<in>set ks. link_href k \<notin> seen"
      "seen' = seen \<union> {link_href l | l. l \<in> set ls \<and> \<not> listing_href (link_href l)}"
      by blast
    have "subseq ks (l # ls)" using ks(1) by (rule list_emb_Cons)
    moreover have "seen' = seen \<union> {link_href x | x. x \<in> set (l # ls) \<and> \<not> listing_href (link_href x)}"
      using ks(5) True by auto
    ultimately show ?thesis using ks(2,3,4) by blast
  next
    case False
    let ?skip = "fst (shouldSkip R (title (link_record l)) (course (link_record l)))"
    let ?R = "snd (shouldSkip R (title (link_record l)) (course (link_record l)))"
    let ?acc = "if ?skip then acc else acc @ [link_record l]"
    from False Cons.prems
    have "visit_links ls (insert (link_href l) seen, ?acc, ?R) = (seen', acc', R')"
      by (simp add: visit_link_cases)
    from Cons.IH [OF this] obtain ks where ks: "subseq ks ls" "acc' = ?acc @ map link_record ks"
      "distinct (map link_href ks)" "\<forall>k\<in>set ks. link_href k \<notin> insert (link_href l) seen"
      "seen' = insert (link_href l) seen
                \<union> {link_href l | l. l \<in> set ls \<and> \<not> listing_href (link_href l)}"
      by blast
    have s: "seen' = seen \<union> {link_href x | x. x \<in> set (l # ls) \<and> \<not> listing_href (link_href x)}"
      using ks(5) False by auto
    show ?thesis
    proof (cases ?skip)
      case True
      have "subseq ks (l # ls)" using ks(1) by (rule list_emb_Cons)
      with True ks s show ?thesis by auto
    next
      case False
      have "subseq (l # ks) (l # ls)" using ks(1) by simp
      moreover have "acc' = acc @ map link_record (l # ks)" using ks(2) False by simp
      moreover have "distinct (map link_href (l # ks))" using ks(3,4) by auto
      moreover have "\<forall>k\<in>set (l # ks). link_href k \<notin> seen"
        using ks(4) \<open>\<not> (link_href l \<in> seen \<or> listing_href (link_href l))\<close> by auto
      ultimately show ?thesis using s by blast
    qed
  qed
qed

lemma visit_item_raises:
  "item_innerText it = None \<Longrightarrow>
   visit_item th it (seen, acc, R) = (Inl (th (ReadOfUndefined ''trim'')), seen, acc, R)"
  by (simp add: visit_item_def)

lemma visit_item_passed:
  "item_innerText it \<noteq> None \<Longrightarrow> item_link it = None \<or> item_href it \<in> seen \<Longrightarrow>
   visit_item th it (seen, acc, R) = (Inr (), seen, acc, R)"
  by (auto simp: visit_item_def item_href_def Let_def split: prod.splits option.splits)

lemma visit_item_checked:
  "item_innerText it \<noteq> None \<Longrightarrow> item_link it \<noteq> None \<Longrightarrow> item_href it \<notin> seen \<Longrightarrow>
   visit_item th it (seen, acc, R) =
     (if fst (shouldSkip R (title (item_record it (item_href it))) (item_text it))
      then (Inr (), seen, acc, snd (shouldSkip R (title (item_record it (item_href it))) (item_text it)))
      else (Inr (), insert (item_href it) seen, acc @ [item_record it (item_href it)],
            snd (shouldSkip R (title (item_record it (item_href it))) (item_text it))))"
  by (auto simp: visit_item_def item_href_def Let_def split: prod.splits option.splits)

lemma visit_items_shape:
  "visit_items th its (seen, acc, R) = (Inr (), seen', acc', R') \<Longrightarrow>
   \<exists>ks. subseq ks its \<and> acc' = acc @ map (\<lambda>it. item_record it (item_href it)) ks
        \<and> distinct (map item_href ks)
        \<and> (\<forall>k\<in>set ks. item_href k \<notin> seen \<and> item_link k \<noteq> None \<and> item_innerText k \<noteq> None)
        \<and> seen' = seen \<union> item_href ` set ks"
proof (induction its arbitrary: seen acc R)
  case Nil
  then show ?case by auto
next
  case (Cons it its)
  let ?skip = "fst (shouldSkip R (title (item_record it (item_href it))) (item_text it))"
  let ?R = "snd (shouldSkip R (title (item_record it (item_href it))) (item_text it))"
  have t: "item_innerText it \<noteq> None"
  proof
    assume "item_innerText it = None"
    from visit_item_raises [OF this] Cons.prems show False by simp
  qed
  show ?case
  proof (cases "item_link it = None \<or> item_href it \<in> seen")
    case True
    from visit_item_passed [OF t True] Cons.prems
    have "visit_items th its (seen, acc, R) = (Inr (), seen', acc', R')"
      by simp
    from Cons.IH [OF this] obtain ks where ks: "subseq ks its"
      "acc' = acc @ map (\<lambda>it. item_record it (item_href it)) ks"
      "distinct (map item_href ks)"
      "\<forall>k\<in>set ks. item_href k \<notin> seen \<and> item_link k \<noteq> None \<and> item_innerText k \<noteq> None"
      "seen' = seen \<union> item_href ` set ks"
      by blast
    have "subseq ks (it # its)" using ks(1) by (rule list_emb_Cons)
    with ks show ?thesis by blast
  next
    case False
    then have n: "item_link it \<noteq> None" "item_href it \<notin> seen"
      by simp_all
    note c = visit_item_checked [OF t n, of th acc R]
    show ?thesis
    proof (cases ?skip)
      case True
      with c Cons.prems have "visit_items th its (seen, acc, ?R) = (Inr (), seen', acc', R')"
        by simp
      from Cons.IH [OF this] obtain ks where ks: "subseq ks its"
        "acc' = acc @ map (\<lambda>it. item_record it (item_href it)) ks"
        "distinct (map item_href ks)"
        "\<forall>k\<in>set ks. item_href k \<notin> seen \<and> item_link k \<noteq> None \<and> item_innerText k \<noteq> None"
        "seen' = seen \<union> item_href ` set ks"
        by blast
      have "subseq ks (it # its)" using ks(1) by (rule list_emb_Cons)
      with ks show ?thesis by blast
    next
      case nskip: False
      with c Cons.prems
      have "visit_items th its (insert (item_href it) seen, acc @ [item_record it (item_href it)], ?R)
            = (Inr (), seen', acc', R')"
        by simp
      from Cons.IH [OF this] obtain ks where ks: "subseq ks its"
        "acc' = (acc @ [item_record it (item_href it)]) @ map (\<lambda>it. item_record it (item_href it)) ks"
        "distinct (map item_href ks)"
        "\<forall>k\<in>set ks. item_href k \<notin> insert (item_href it) seen \<and> item_link k \<noteq> None
                        \<and> item_innerText k \<noteq> None"
        "seen' = insert (item_href it) seen \<union> item_href ` set ks"
        by blast
      have "subseq (it # ks) (it # its)" using ks(1) by simp
      moreover have "acc' = acc @ map (\<lambda>it. item_record it (item_href it)) (it # ks)"
        using ks(2) by simp
      moreover have "distinct (map item_href (it # ks))" using ks(3,4) by auto
      moreover have "\<forall>k\<in>set (it # ks). item_href k \<notin> seen \<and> item_link k \<noteq> None
                        \<and> item_innerText k \<noteq> None"
        using ks(4) n t by auto
      moreover have "seen' = seen \<union> item_href ` set (it # ks)" using ks(5) by auto
      ultimately show ?thesis by blast
    qed
  qed
qed

lemma extract_records_shape:
  assumes "extract_records th p R = (Inr (), seen, rs, R')"
  shows "(\<exists>ls. subseq ls (allLinks p) \<and> rs = map link_record ls \<and> distinct (map link_href ls)
             \<and> seen = {link_href l | l. l \<in> set (allLinks p) \<and> \<not> listing_href (link_href l)})
       \<or> (\<exists>its. subseq its (items p) \<and> rs = map (\<lambda>it. item_record it (item_href it)) its
             \<and> distinct (map item_href its)
             \<and> (\<forall>it\<in>set its. item_link it \<noteq> None \<and> item_innerText it \<noteq> None
                    \<and> item_href it \<notin> {link_href l | l. l \<in> set (allLinks p) \<and> \<not> listing_href (link_href l)})
             \<and> seen = {link_href l | l. l \<in> set (allLinks p) \<and> \<not> listing_href (link_href l)}
                      \<union> item_href ` set its)"
proof -
  obtain s1 a1 R1 where v: "visit_links (allLinks p) ({}, [], R) = (s1, a1, R1)"
    by (cases "visit_links (allLinks p) ({}, [], R)") auto
  from visit_links_shape [OF v] obtain ls where ls: "subseq ls (allLinks p)"
    "a1 = map link_record ls" "distinct (map link_href ls)"
    "s1 = {link_href l | l. l \<in> set (allLinks p) \<and> \<not> listing_href (link_href l)}"
    by auto
  show ?thesis
  proof (cases "a1 = []")
    case False
    with assms v have "seen = s1" "rs = a1" by (simp_all add: extract_records_def)
    with ls show ?thesis by blast
  next
    case True
    with assms v have "visit_items th (items p) (s1, [], R1) = (Inr (), seen, rs, R')"
      by (simp add: extract_records_def)
    from visit_items_shape [OF this] ls(4) show ?thesis by auto
  qed
qed

lemma visit_links_keeps:
  "\<not> global R \<Longrightarrow> snd (snd (visit_links ls (seen, acc, R))) = R"
proof (induction ls arbitrary: seen acc)
  case Nil
  then show ?case by simp
next
  case (Cons l ls)
  from shouldSkip_keeps [OF Cons.prems]
  have "\<exists>seen1 acc1. visit_link l (seen, acc, R) = (seen1, acc1, R)"
    by (simp add: visit_link_cases)
  then obtain seen1 acc1 where "visit_link l (seen, acc, R) = (seen1, acc1, R)"
    by blast
  with Cons.IH [OF Cons.prems, of seen1 acc1] show ?case by simp
qed

lemma visit_links_seen:
  "fst (visit_links (allLinks p) ({}, [], R)) = primary_seen p"
proof -
  obtain s a R' where v: "visit_links (allLinks p) ({}, [], R) = (s, a, R')"
    by (cases "visit_links (allLinks p) ({}, [], R)") auto
  from visit_links_shape [OF v]
  have "s = {link_href l | l. l \<in> set (allLinks p) \<and> \<not> listing_href (link_href l)}"
    by auto
  with v show ?thesis by (auto simp: primary_seen_def)
qed

lemma visit_item_returns:
  "item_innerText it \<noteq> None \<Longrightarrow> fst (visit_item th it s) = Inr ()"
  by (cases s) (auto simp: visit_item_def Let_def split: prod.splits option.splits)

lemma visit_items_result:
  "fst (visit_items th its s)
   = (if \<forall>it\<in>set its. item_innerText it \<noteq> None then Inr ()
      else Inl (th (ReadOfUndefined ''trim'')))"
proof (induction its arbitrary: s)
  case Nil
  then show ?case by simp
next
  case (Cons it its)
  obtain seen acc R where s: "s = (seen, acc, R)" by (cases s) auto
  show ?case
  proof (cases "item_innerText it = None")
    case True
    from visit_item_raises [OF True, of th seen acc R] True show ?thesis
      by (simp add: s)
  next
    case False
    from visit_item_returns [OF False, of th s]
    obtain s' where "visit_item th it s = (Inr (), s')"
      by (cases "visit_item th it s") auto
    with Cons.IH [of s'] False show ?thesis by simp
  qed
qed

lemma visit_items_exact:
  "\<not> global R \<Longrightarrow> visit_items th its (seen, acc, R) = (Inr (), seen', acc', R') \<Longrightarrow>
   \<exists>ks. subseq ks its \<and> acc' = acc @ map (\<lambda>it. item_record it (item_href it)) ks
        \<and> distinct (map item_href ks)
        \<and> (\<forall>k\<in>set ks. item_link k \<noteq> None \<and> item_href k \<notin> seen \<and> \<not> item_excluded R k)
        \<and> (\<forall>it\<in>set its. item_link it \<noteq> None \<and> item_href it \<notin> seen \<and> \<not> item_excluded R it
               \<longrightarrow> item_href it \<in> item_href ` set ks)"
proof (induction its arbitrary: seen acc)
  case Nil
  then show ?case by auto
next
  case (Cons it its)
  let ?skip = "fst (shouldSkip R (title (item_record it (item_href it))) (item_text it))"
  have R: "snd (shouldSkip R (title (item_record it (item_href it))) (item_text it)) = R"
    by (rule shouldSkip_keeps [OF Cons.prems(1)])
  have e: "item_excluded R it = ?skip"
    by (simp add: item_excluded_def)
  have t: "item_innerText it \<noteq> None"
  proof
    assume "item_innerText it = None"
    from visit_item_raises [OF this] Cons.prems(2) show False by simp
  qed
  show ?case
  proof (cases "item_link it = None \<or> item_href it \<in> seen")
    case True
    from visit_item_passed [OF t True] Cons.prems(2)
    have "visit_items th its (seen, acc, R) = (Inr (), seen', acc', R')"
      by simp
    from Cons.IH [OF Cons.prems(1) this] obtain ks where ks: "subseq ks its"
      "acc' = acc @ map (\<lambda>it. item_record it (item_href it)) ks"
      "distinct (map item_href ks)"
      "\<forall>k\<in>set ks. item_link k \<noteq> None \<and> item_href k \<notin> seen \<and> \<not> item_excluded R k"
      "\<forall>it\<in>set its. item_link it \<noteq> None \<and> item_href it \<notin> seen \<and> \<not> item_excluded R it
               \<longrightarrow> item_href it \<in> item_href ` set ks"
      by blast
    have "subseq ks (it # its)" using ks(1) by (rule list_emb_Cons)
    moreover have "\<forall>x\<in>set (it # its). item_link x \<noteq> None \<and> item_href x \<notin> seen \<and> \<not> item_excluded R x
               \<longrightarrow> item_href x \<in> item_href ` set ks"
      using ks(5) True by auto
    ultimately show ?thesis using ks(2,3,4) by blast
  next
    case False
    then have n: "item_link it \<noteq> None" "item_href it \<notin> seen"
      by simp_all
    note c = visit_item_checked [OF t n, of th acc R]
    show ?thesis
    proof (cases ?skip)
      case True
      with c R Cons.prems(2) have "visit_items th its (seen, acc, R) = (Inr (), seen', acc', R')"
        by simp
      from Cons.IH [OF Cons.prems(1) this] obtain ks where ks: "subseq ks its"
        "acc' = acc @ map (\<lambda>it. item_record it (item_href it)) ks"
        "distinct (map item_href ks)"
        "\<forall>k\<in>set ks. item_link k \<noteq> None \<and> item_href k \<notin> seen \<and> \<not> item_excluded R k"
        "\<forall>it\<in>set its. item_link it \<noteq> None \<and> item_href it \<notin> seen \<and> \<not> item_excluded R it
               \<longrightarrow> item_href it \<in> item_href ` set ks"
        by blast
      have "subseq ks (it # its)" using ks(1) by (rule list_emb_Cons)
      moreover have "\<forall>x\<in>set (it # its). item_link x \<noteq> None \<and> item_href x \<notin> seen \<and> \<not> item_excluded R x
               \<longrightarrow> item_href x \<in> item_href ` set ks"
        using ks(5) True e by auto
      ultimately show ?thesis using ks(2,3,4) by blast
    next
      case nskip: False
      with c R Cons.prems(2)
      have "visit_items th its (insert (item_href it) seen, acc @ [item_record it (item_href it)], R)
            = (Inr (), seen', acc', R')"
        by simp
      from Cons.IH [OF Cons.prems(1) this] obtain ks where ks: "subseq ks its"
        "acc' = (acc @ [item_record it (item_href it)]) @ map (\<lambda>it. item_record it (item_href it)) ks"
        "distinct (map item_href ks)"
        "\<forall>k\<in>set ks. item_link k \<noteq> None \<and> item_href k \<notin> insert (item_href it) seen
                        \<and> \<not> item_excluded R k"
        "\<forall>x\<in>set its. item_link x \<noteq> None \<and> item_href x \<notin> insert (item_href it) seen
                        \<and> \<not> item_excluded R x
               \<longrightarrow> item_href x \<in> item_href ` set ks"
        by blast
      have "subseq (it # ks) (it # its)" using ks(1) by simp
      moreover have "acc' = acc @ map (\<lambda>it. item_record it (item_href it)) (it # ks)"
        using ks(2) by simp
      moreover have "distinct (map item_href (it # ks))" using ks(3,4) by auto
      moreover have "\<forall>k\<in>set (it # ks). item_link k \<noteq> None \<and> item_href k \<notin> seen
                        \<and> \<not> item_excluded R k"
        using ks(4) n nskip e by auto
      moreover have "\<forall>x\<in>set (it # its). item_link x \<noteq> None \<and> item_href x \<notin> seen
                        \<and> \<not> item_excluded R x
               \<longrightarrow> item_href x \<in> item_href ` set (it # ks)"
        using ks(5) by auto
      ultimately show ?thesis by blast
    qed
  qed
qed

lemma secondary_pass:
  assumes g: "\<not> global R"
    and z: "fst (snd (visit_links (allLinks p) ({}, [], R))) = []"
    and t: "\<forall>it\<in>set (items p). item_innerText it \<noteq> None"
  shows "\<exists>its. subseq its (items p)
           \<and> fst (extract_records th p R) = Inr ()
           \<and> fst (snd (snd (extract_records th p R))) = map (\<lambda>it. item_record it (item_href it)) its
           \<and> distinct (map item_href its)
           \<and> (\<forall>it\<in>set its. item_link it \<noteq> None \<and> item_href it \<notin> primary_seen p
                  \<and> \<not> item_excluded R it)
           \<and> (\<forall>it\<in>set (items p). item_link it \<noteq> None \<and> item_href it \<notin> primary_seen p
                  \<and> \<not> item_excluded R it
                \<longrightarrow> item_href it \<in> item_href ` set its)"
proof -
  from visit_links_seen [of p R] z visit_links_keeps [OF g, of "allLinks p" "{}" "[]"]
  have v: "visit_links (allLinks p) ({}, [], R) = (primary_seen p, [], R)"
    by (simp add: prod_eq_iff)
  then have x: "extract_records th p R = visit_items th (items p) (primary_seen p, [], R)"
    by (simp add: extract_records_def)
  from visit_items_result [of th "items p" "(primary_seen p, [], R)"] t
  have "fst (visit_items th (items p) (primary_seen p, [], R)) = Inr ()"
    by simp
  then obtain seen' acc' R' where
    y: "visit_items th (items p) (primary_seen p, [], R) = (Inr (), seen', acc', R')"
    by (cases "visit_items th (items p) (primary_seen p, [], R)") auto
  from visit_items_exact [OF g y] x y show ?thesis by auto
qed

lemma secondary_pass_result:
  assumes g: "\<not> global R"
    and z: "fst (snd (visit_links (allLinks p) ({}, [], R))) = []"
  shows "fst (extract_records th p R)
         = (if \<forall>it\<in>set (items p). item_innerText it \<noteq> None then Inr ()
            else Inl (th (ReadOfUndefined ''trim'')))"
  using z visit_items_result [of th "items p" "visit_links (allLinks p) ({}, [], R)"]
  by (simp add: extract_records_def Let_def)

lemma distinct_singleton_set: "distinct xs \<Longrightarrow> set xs = {a} \<Longrightarrow> xs = [a]"
  by (cases xs) (auto simp: subset_singleton_iff)

lemma scanLiveTodo_extract:
  "scanLiveTodo E st = (Inr (Some rs), st') \<Longrightarrow>
   \<exists>seen R'. extract_records (thrown E) (document E) (apush_re st) = (Inr (), seen, rs, R')"
  by (auto simp: scanLiveTodo_def Let_def setStatus_def log_msg_def sleep_def
           split: if_splits prod.splits sum.splits)

lemma scan_todo_page:
  "fst (scanLiveTodo (sample_env todo_page n) start) = Inr (Some [sample_record, second_record])"
  by code_simp

lemma last_dropWhile: "dropWhile P xs \<noteq> [] \<Longrightarrow> last (dropWhile P xs) = last xs"
  by (induction xs) auto

lemma trim_idem: "trim (trim s) = trim s"
proof -
  let ?d = "dropWhile is_ws s"
  let ?e = "dropWhile is_ws (rev ?d)"
  have "dropWhile is_ws (rev ?e) = rev ?e"
  proof (cases "?e = []")
    case True
    show ?thesis by (simp only: True rev.simps dropWhile.simps)
  next
    case False
    have d: "?d \<noteq> []"
    proof
      assume a: "?d = []"
      have "?e = []" by (simp only: a rev.simps dropWhile.simps)
      with False show False by blast
    qed
    have "hd (rev ?e) = last ?e" using False by (simp add: hd_rev)
    also have "\<dots> = last (rev ?d)" using False by (rule last_dropWhile)
    also have "\<dots> = hd ?d" using d by (simp add: last_rev)
    finally have "\<not> is_ws (hd (rev ?e))" using d hd_dropWhile [of is_ws s] by simp
    then show ?thesis by (simp add: dropWhile_eq_self_iff)
  qed
  then show ?thesis by (simp add: trim_def)
qed

lemma primary_title:
  "first_or_Unknown (filter (\<lambda>x. 3 < length x) (map trim xs))
   = (case find (\<lambda>x. 3 < length (trim x)) xs of None \<Rightarrow> ''Unknown'' | Some x \<Rightarrow> trim x)"
  by (induction xs) (auto simp: first_or_Unknown_def js_or_def)

lemma secondary_title:
  "first_or_Unknown (filter (\<lambda>x. 3 < length (trim x)) xs)
   = (case find (\<lambda>x. 3 < length (trim x)) xs of None \<Rightarrow> ''Unknown'' | Some x \<Rightarrow> x)"
  by (induction xs) (auto simp: first_or_Unknown_def js_or_def trim_def)

lemma trim_Unknown: "trim ''Unknown'' = ''Unknown''"
  by code_simp

lemma link_record_title:
  "title (link_record l)
   = (case first_nontrivial_line (link_text l) of None \<Rightarrow> ''Unknown'' | Some x \<Rightarrow> trim x)"
  by (simp add: link_record_def link_lines_def first_nontrivial_line_def primary_title)

lemma item_record_title:
  "title (item_record it h)
   = (case first_nontrivial_line (item_text it) of None \<Rightarrow> ''Unknown'' | Some x \<Rightarrow> x)"
  by (simp add: item_record_def first_nontrivial_line_def secondary_title)

lemma first_nontrivial_line_long:
  "first_nontrivial_line t = Some x \<Longrightarrow> 3 < length (trim x)"
  by (auto simp: first_nontrivial_line_def find_Some_iff)

lemma link_record_title_nonblank: "trim (title (link_record l)) \<noteq> []"
proof (cases "first_nontrivial_line (link_text l)")
  case None
  then show ?thesis by (simp add: link_record_title trim_Unknown)
next
  case (Some x)
  from first_nontrivial_line_long [OF Some] have "trim x \<noteq> []" by auto
  with Some show ?thesis by (simp add: link_record_title trim_idem)
qed

lemma item_record_title_nonblank: "trim (title (item_record it h)) \<noteq> []"
proof (cases "first_nontrivial_line (item_text it)")
  case None
  then show ?thesis by (simp add: item_record_title trim_Unknown)
next
  case (Some x)
  from first_nontrivial_line_long [OF Some] have "trim x \<noteq> []" by auto
  with Some show ?thesis by (simp add: item_record_title)
qed

lemma subseq_set: "subseq xs ys \<Longrightarrow> set xs \<subseteq> set ys"
  by (induct rule: list_emb.induct) auto




text \<open>
  Claim C10.  The records of one extraction come, in order, either from links of the first
  selector or from items of the second, with pairwise distinct \<open>href\<close> attributes, both
  passes consulting the one set \<open>seen\<close>.  The first pass adds the attribute of a link to
  \<open>seen\<close> before it checks the exclusion rules, so the attribute of every link it did not
  pass over is in \<open>seen\<close>, excluded or not, and no record of the second pass has such an
  attribute.
\<close>

theorem shared_seen_set:
  assumes "extract_records th p R = (Inr (), seen, rs, R')"
  shows "((\<exists>ls. subseq ls (allLinks p) \<and> rs = map link_record ls \<and> distinct (map link_href ls))
          \<or> (\<exists>its. subseq its (items p) \<and> rs = map (\<lambda>it. item_record it (item_href it)) its
                 \<and> distinct (map item_href its)
                 \<and> (\<forall>it\<in>set its. \<forall>l\<in>set (allLinks p).
                        \<not> listing_href (link_href l) \<longrightarrow> item_href it \<noteq> link_href l)))
         \<and> (\<forall>l\<in>set (allLinks p). \<not> listing_href (link_href l) \<longrightarrow> link_href l \<in> seen)"
  using extract_records_shape [OF assms] by (elim disjE exE conjE) (rule conjI; blast)+

theorem shared_seen_set_witness:
  "fst (extract_records v8_error apush_page APUSH_RE) = Inr ()
   \<and> fst (snd (snd (extract_records v8_error apush_page APUSH_RE)))
     = [\<lparr>title = ''Essay outline '', course = [],
         url = ''https://classroom.google.com/details/MjI'',
         text' = ''Essay outline '' @ nl @ ''Friday''\<rparr>]
   \<and> fst (shouldSkip APUSH_RE (title (link_record (hd (allLinks apush_page))))
                               (course (link_record (hd (allLinks apush_page)))))
   \<and> item_href (hd (items apush_page)) = link_href (hd (allLinks apush_page))
   \<and> link_href (hd (allLinks apush_page)) \<in> fst (snd (extract_records v8_error apush_page APUSH_RE))"
proof -
  have 0: "fst (extract_records v8_error apush_page APUSH_RE) = Inr ()"
    by code_simp
  then obtain seen rs R' where
    e: "extract_records v8_error apush_page APUSH_RE = (Inr (), seen, rs, R')"
    by (cases "extract_records v8_error apush_page APUSH_RE") auto
  have 1: "fst (snd (snd (extract_records v8_error apush_page APUSH_RE)))
     = [\<lparr>title = ''Essay outline '', course = [],
         url = ''https://classroom.google.com/details/MjI'',
         text' = ''Essay outline '' @ nl @ ''Friday''\<rparr>]"
    by code_simp
  have 2: "fst (shouldSkip APUSH_RE (title (link_record (hd (allLinks apush_page))))
                               (course (link_record (hd (allLinks apush_page)))))"
    by code_simp
  have 3: "item_href (hd (items apush_page)) = link_href (hd (allLinks apush_page))"
    by code_simp
  have 4: "hd (allLinks apush_page) \<in> set (allLinks apush_page)"
    by (simp add: apush_page_def)
  have 5: "\<not> listing_href (link_href (hd (allLinks apush_page)))"
    by code_simp
  from shared_seen_set [OF e] 4 5 have "link_href (hd (allLinks apush_page)) \<in> seen"
    by blast
  with e 0 1 2 3 show ?thesis by simp
qed

text \<open>
  Claim C8, as the claim states it, fails.  For a card whose text has no line of more than
  three characters the record gets the title \<open>Unknown\<close>, which is no line of the card.
\<close>

theorem title_is_no_line_of_the_card:
  "fst (scanLiveTodo (sample_env short_card_page nothing_answers) start)
     = Inr (Some [\<lparr>title = ''Unknown'', course = [],
                   url = ''https://classroom.google.com/c/NzE/a/NDQ/details'', text' = ''Hi''\<rparr>])
   \<and> link_text (hd (allLinks short_card_page)) = ''Hi''
   \<and> split_nl ''Hi'' = [''Hi'']
   \<and> ''Unknown'' \<notin> set (split_nl ''Hi'')
   \<and> first_nontrivial_line ''Hi'' = None"
proof -
  have 1: "fst (scanLiveTodo (sample_env short_card_page nothing_answers) start)
     = Inr (Some [\<lparr>title = ''Unknown'', course = [],
                   url = ''https://classroom.google.com/c/NzE/a/NDQ/details'', text' = ''Hi''\<rparr>])"
    by code_simp
  have 2: "split_nl ''Hi'' = [''Hi'']"
    by code_simp
  have 3: "first_nontrivial_line ''Hi'' = None"
    by code_simp
  have 4: "link_text (hd (allLinks short_card_page)) = ''Hi''"
    by code_simp
  from 1 2 3 4 show ?thesis by simp
qed

text \<open>
  Claim C8, amended.  The title of every record is non-empty after trimming.  It is the
  first line of the extracted text whose trimmed length exceeds three when there is such a
  line (trimmed when the record comes from the first pass, as it stands when it comes from
  the second), and the word \<open>Unknown\<close> when there is none.
\<close>

theorem title_first_nontrivial_or_Unknown:
  assumes "scanLiveTodo E st = (Inr (Some rs), st')"
  shows "\<forall>r\<in>set rs.
           trim (title r) \<noteq> []
           \<and> ((\<exists>l\<in>set (allLinks (document E)).
                  text' r = link_text l
                  \<and> title r = (case first_nontrivial_line (link_text l) of
                                 None \<Rightarrow> ''Unknown'' | Some x \<Rightarrow> trim x))
              \<or> (\<exists>it\<in>set (items (document E)).
                  item_innerText it \<noteq> None \<and> text' r = item_text it
                  \<and> title r = (case first_nontrivial_line (item_text it) of
                                 None \<Rightarrow> ''Unknown'' | Some x \<Rightarrow> x)))"
proof -
  from scanLiveTodo_extract [OF assms] obtain seen R' where
    e: "extract_records (thrown E) (document E) (apush_re st) = (Inr (), seen, rs, R')" by blast
  from extract_records_shape [OF e]
  consider ls where "subseq ls (allLinks (document E))" "rs = map link_record ls"
    | its where "subseq its (items (document E))" "rs = map (\<lambda>it. item_record it (item_href it)) its"
        "\<forall>it\<in>set its. item_innerText it \<noteq> None"
    by blast
  then show ?thesis
  proof cases
    case 1
    have "text' (link_record l) = link_text l" for l
      by (simp add: link_record_def)
    with subseq_set [OF 1(1)] 1(2) show ?thesis
      using link_record_title link_record_title_nonblank by fastforce
  next
    case 2
    have "text' (item_record it h) = item_text it" for it h
      by (simp add: item_record_def)
    with subseq_set [OF 2(1)] 2(2,3) show ?thesis
      using item_record_title item_record_title_nonblank by fastforce
  qed
qed

theorem title_first_nontrivial_or_Unknown_witness:
  "fst (scanLiveTodo (sample_env todo_page nothing_answers) start)
     = Inr (Some [sample_record, second_record])
   \<and> trim (title second_record) \<noteq> []
   \<and> ((\<exists>l\<in>set (allLinks todo_page).
          text' second_record = link_text l
          \<and> title second_record = (case first_nontrivial_line (link_text l) of
                                     None \<Rightarrow> ''Unknown'' | Some x \<Rightarrow> trim x))
       \<or> (\<exists>it\<in>set (items todo_page).
          item_innerText it \<noteq> None \<and> text' second_record = item_text it
          \<and> title second_record = (case first_nontrivial_line (item_text it) of
                                     None \<Rightarrow> ''Unknown'' | Some x \<Rightarrow> x)))"
proof -
  let ?E = "sample_env todo_page nothing_answers"
  have d: "document ?E = todo_page"
    by (simp add: sample_env_def)
  have f: "fst (scanLiveTodo ?E start) = Inr (Some [sample_record, second_record])"
    by (rule scan_todo_page)
  then have e: "scanLiveTodo ?E start
                = (Inr (Some [sample_record, second_record]), snd (scanLiveTodo ?E start))"
    by (simp add: prod_eq_iff)
  from title_first_nontrivial_or_Unknown [OF e] f show ?thesis
    by (simp only: d) simp
qed

section \<open>The run\<close>

lemma main_without_global_key:
  assumes "global_GEMINI_KEY E = None"
  shows "main E st
         = st\<lparr>trace := trace st @
                 [PanelCreated,
                  Status (''Error: '' @ message (thrown E (NotDefined ''GEMINI_KEY''))),
                  Logged (''Error: '' @ message (thrown E (NotDefined ''GEMINI_KEY''))),
                  Logged (''Fatal: '' @ stack (thrown E (NotDefined ''GEMINI_KEY'')))]\<rparr>"
  using assms
  by (simp add: main_def main_try_def read_GEMINI_KEY_def createPanel_def setStatus_def log_msg_def)

text \<open>
  Claim C1, evaluated where it fails.  The script declares \<open>API_KEY\<close> and checks
  \<open>GEMINI_KEY\<close>.  With a key configured and a page with two records to find, on a
  global object that binds no \<open>GEMINI_KEY\<close>, evaluating the check raises a reference
  error: the run ends in the \<open>catch\<close> with an error status, no record is looked for and no
  request is sent.
\<close>

theorem genuine_key_run_stops_at_key_check:
  "API_KEY (sample_env todo_page (primary_answers ''Done.'')) = ''AIzaSyExampleKey0123''
   \<and> global_GEMINI_KEY (sample_env todo_page (primary_answers ''Done.'')) = None
   \<and> fst (scanLiveTodo (sample_env todo_page (primary_answers ''Done.'')) start)
     = Inr (Some [sample_record, second_record])
   \<and> trace (main (sample_env todo_page (primary_answers ''Done.'')) start)
     = [PanelCreated,
        Status ''Error: GEMINI_KEY is not defined'',
        Logged ''Error: GEMINI_KEY is not defined'',
        Logged ''Fatal: ReferenceError: GEMINI_KEY is not defined'']
   \<and> sent (main (sample_env todo_page (primary_answers ''Done.'')) start) = 0"
proof -
  have 1: "API_KEY (sample_env todo_page (primary_answers ''Done.'')) = ''AIzaSyExampleKey0123''"
    by (simp add: sample_env_def)
  have 2: "global_GEMINI_KEY (sample_env todo_page (primary_answers ''Done.'')) = None"
    by (simp add: sample_env_def)
  have 3: "fst (scanLiveTodo (sample_env todo_page (primary_answers ''Done.'')) start)
             = Inr (Some [sample_record, second_record])"
    by (rule scan_todo_page)
  have 4: "trace (main (sample_env todo_page (primary_answers ''Done.'')) start)
     = [PanelCreated,
        Status ''Error: GEMINI_KEY is not defined'',
        Logged ''Error: GEMINI_KEY is not defined'',
        Logged ''Fatal: ReferenceError: GEMINI_KEY is not defined'']"
    by code_simp
  have 5: "sent (main (sample_env todo_page (primary_answers ''Done.'')) start) = 0"
    by code_simp
  from 1 2 3 4 5 show ?thesis by blast
qed

lemma scanLiveTodo_on_listing:
  "on_listing (document E) \<Longrightarrow>
   scanLiveTodo E st
   = ((case fst (extract_records (thrown E) (document E) (apush_re st)) of
         Inl e \<Rightarrow> Inl e
       | Inr u \<Rightarrow> Inr (Some (fst (snd (snd (extract_records (thrown E) (document E) (apush_re st))))))),
      st\<lparr>trace := trace st @ [Status ''Scanning To-do page...'', Logged ''Scanning To-do page...'',
                               Sleep 3000],
         apush_re := snd (snd (snd (extract_records (thrown E) (document E) (apush_re st))))\<rparr>)"
  by (auto simp: scanLiveTodo_def on_listing_def Let_def setStatus_def log_msg_def sleep_def
           split: prod.splits sum.splits)

lemma main_with_key:
  "key_accepted E \<Longrightarrow> main_try E st = pipeline E (createPanel st)"
  by (auto simp: key_accepted_def main_try_def read_GEMINI_KEY_def Let_def split: option.splits)

text \<open>
  Claim C6.  On an address the extractor accepts: when the pass over the links of the first
  selector yields no record, the result of the extraction is that of the pass over the
  items of the second selector, started from the set \<open>seen\<close> the first pass left.  With
  \<open>APUSH_RE\<close> not global, as declared, that pass raises a type error if some item has
  no \<open>innerText\<close> and returns otherwise; what it returns are the records of items of the
  second selector, in document order and with pairwise distinct addresses, each of an item
  that has a detail link, whose address the first pass has not seen and that the rules do
  not exclude; and every item of that kind has its address among them.  When the
  extraction ends with no record, the pipeline reports that no assignments were found,
  adds the hint, and sends no request.  A run that gets past the check of the key does that
  and nothing more, once the panel is there.
\<close>

theorem empty_result_reported:
  assumes "on_listing (document E)"
  shows "(fst (snd (visit_links (allLinks (document E)) ({}, [], apush_re st))) = []
          \<longrightarrow> extract_records (thrown E) (document E) (apush_re st)
              = visit_items (thrown E) (items (document E))
                  (visit_links (allLinks (document E)) ({}, [], apush_re st)))
       \<and> (\<not> global (apush_re st)
            \<and> fst (snd (visit_links (allLinks (document E)) ({}, [], apush_re st))) = []
          \<longrightarrow> fst (scanLiveTodo E st)
              = (if \<forall>it\<in>set (items (document E)). item_innerText it \<noteq> None
                 then Inr (Some (fst (snd (snd (extract_records (thrown E) (document E) (apush_re st))))))
                 else Inl (thrown E (ReadOfUndefined ''trim'')))
              \<and> ((\<forall>it\<in>set (items (document E)). item_innerText it \<noteq> None)
                 \<longrightarrow> (\<exists>its. subseq its (items (document E))
                        \<and> fst (scanLiveTodo E st)
                          = Inr (Some (map (\<lambda>it. item_record it (item_href it)) its))
                        \<and> distinct (map item_href its)
                        \<and> (\<forall>it\<in>set its.
                              item_link it \<noteq> None \<and> item_href it \<notin> primary_seen (document E)
                              \<and> \<not> item_excluded (apush_re st) it)
                        \<and> (\<forall>it\<in>set (items (document E)).
                              item_link it \<noteq> None \<and> item_href it \<notin> primary_seen (document E)
                              \<and> \<not> item_excluded (apush_re st) it
                              \<longrightarrow> item_href it \<in> item_href ` set its))))
       \<and> (fst (extract_records (thrown E) (document E) (apush_re st)) = Inr ()
            \<and> fst (snd (snd (extract_records (thrown E) (document E) (apush_re st)))) = []
          \<longrightarrow> fst (pipeline E st) = Inr ()
              \<and> trace (snd (pipeline E st))
                = trace st @
                  [Status ''Scanning To-do page...'', Logged ''Scanning To-do page...'',
                   Sleep 3000,
                   Status (''No assignments found. Make sure you'' @ [CHR 0x27] @ ''re on the To-do page.''),
                   Logged (''No assignments found. Make sure you'' @ [CHR 0x27] @ ''re on the To-do page.''),
                   Result EmptyHint]
              \<and> sent (snd (pipeline E st)) = sent st
              \<and> (key_accepted E
                   \<longrightarrow> trace (main E st)
                       = trace st @
                         [PanelCreated,
                          Status ''Scanning To-do page...'', Logged ''Scanning To-do page...'',
                          Sleep 3000,
                          Status (''No assignments found. Make sure you'' @ [CHR 0x27] @ ''re on the To-do page.''),
                          Logged (''No assignments found. Make sure you'' @ [CHR 0x27] @ ''re on the To-do page.''),
                          Result EmptyHint]
                     \<and> sent (main E st) = sent st))"
proof -
  let ?p = "document E"
  let ?R = "apush_re st"
  let ?x = "extract_records (thrown E) ?p ?R"
  have a: "fst (snd (visit_links (allLinks ?p) ({}, [], ?R))) = []
          \<longrightarrow> ?x = visit_items (thrown E) (items ?p) (visit_links (allLinks ?p) ({}, [], ?R))"
    by (simp add: extract_records_def Let_def)
  have s: "fst (scanLiveTodo E st)
           = (case fst ?x of Inl e \<Rightarrow> Inl e | Inr u \<Rightarrow> Inr (Some (fst (snd (snd ?x)))))"
    by (simp only: scanLiveTodo_on_listing [OF assms] fst_conv)
  have r1: "fst (scanLiveTodo E st)
              = (if \<forall>it\<in>set (items ?p). item_innerText it \<noteq> None
                 then Inr (Some (fst (snd (snd ?x))))
                 else Inl (thrown E (ReadOfUndefined ''trim'')))"
    if g: "\<not> global ?R" and z: "fst (snd (visit_links (allLinks ?p) ({}, [], ?R))) = []"
    by (simp add: s secondary_pass_result [OF g z])
  have r2: "\<exists>its. subseq its (items ?p)
                        \<and> fst (scanLiveTodo E st)
                          = Inr (Some (map (\<lambda>it. item_record it (item_href it)) its))
                        \<and> distinct (map item_href its)
                        \<and> (\<forall>it\<in>set its.
                              item_link it \<noteq> None \<and> item_href it \<notin> primary_seen ?p
                              \<and> \<not> item_excluded ?R it)
                        \<and> (\<forall>it\<in>set (items ?p).
                              item_link it \<noteq> None \<and> item_href it \<notin> primary_seen ?p
                              \<and> \<not> item_excluded ?R it
                              \<longrightarrow> item_href it \<in> item_href ` set its)"
    if g: "\<not> global ?R" and z: "fst (snd (visit_links (allLinks ?p) ({}, [], ?R))) = []"
      and t: "\<forall>it\<in>set (items ?p). item_innerText it \<noteq> None"
  proof -
    from secondary_pass [OF g z t, of "thrown E"] obtain its where its:
      "subseq its (items ?p)" "fst ?x = Inr ()"
      "fst (snd (snd ?x)) = map (\<lambda>it. item_record it (item_href it)) its"
      "distinct (map item_href its)"
      "\<forall>it\<in>set its. item_link it \<noteq> None \<and> item_href it \<notin> primary_seen ?p
                  \<and> \<not> item_excluded ?R it"
      "\<forall>it\<in>set (items ?p). item_link it \<noteq> None \<and> item_href it \<notin> primary_seen ?p
                  \<and> \<not> item_excluded ?R it
                \<longrightarrow> item_href it \<in> item_href ` set its"
      by blast
    from its(2,3) have "fst (scanLiveTodo E st)
            = Inr (Some (map (\<lambda>it. item_record it (item_href it)) its))"
      by (simp add: s)
    with its(1,4,5,6) show ?thesis by blast
  qed
  have b: "fst (pipeline E s) = Inr ()
              \<and> trace (snd (pipeline E s))
                = trace s @
                  [Status ''Scanning To-do page...'', Logged ''Scanning To-do page...'',
                   Sleep 3000,
                   Status (''No assignments found. Make sure you'' @ [CHR 0x27] @ ''re on the To-do page.''),
                   Logged (''No assignments found. Make sure you'' @ [CHR 0x27] @ ''re on the To-do page.''),
                   Result EmptyHint]
              \<and> sent (snd (pipeline E s)) = sent s"
    if z: "fst (extract_records (thrown E) (document E) (apush_re s)) = Inr ()"
          "fst (snd (snd (extract_records (thrown E) (document E) (apush_re s)))) = []"
    for s
    using z
    by (simp add: pipeline_def scanLiveTodo_on_listing [OF assms]
          setStatus_def log_msg_def addResult_def)
  have c: "trace (main E st)
             = trace st @
               [PanelCreated,
                Status ''Scanning To-do page...'', Logged ''Scanning To-do page...'',
                Sleep 3000,
                Status (''No assignments found. Make sure you'' @ [CHR 0x27] @ ''re on the To-do page.''),
                Logged (''No assignments found. Make sure you'' @ [CHR 0x27] @ ''re on the To-do page.''),
                Result EmptyHint]
           \<and> sent (main E st) = sent st"
    if z: "fst (extract_records (thrown E) (document E) (apush_re st)) = Inr ()"
          "fst (snd (snd (extract_records (thrown E) (document E) (apush_re st)))) = []"
      and k: "key_accepted E"
  proof -
    have s: "apush_re (createPanel st) = apush_re st" "sent (createPanel st) = sent st"
       "trace (createPanel st) = trace st @ [PanelCreated]"
      by (simp_all add: createPanel_def)
    from z have z': "fst (extract_records (thrown E) (document E) (apush_re (createPanel st))) = Inr ()"
          "fst (snd (snd (extract_records (thrown E) (document E) (apush_re (createPanel st))))) = []"
      by (simp_all only: s)
    obtain r st' where p: "pipeline E (createPanel st) = (r, st')"
      by (cases "pipeline E (createPanel st)")
    from b [OF z'] p have "r = Inr ()" and t: "trace st' = trace (createPanel st) @
                  [Status ''Scanning To-do page...'', Logged ''Scanning To-do page...'',
                   Sleep 3000,
                   Status (''No assignments found. Make sure you'' @ [CHR 0x27] @ ''re on the To-do page.''),
                   Logged (''No assignments found. Make sure you'' @ [CHR 0x27] @ ''re on the To-do page.''),
                   Result EmptyHint]"
      and n: "sent st' = sent (createPanel st)"
      by simp_all
    with p main_with_key [OF k, of st] have "main E st = st'"
      by (simp add: main_def)
    with t n s show ?thesis by simp
  qed
  show ?thesis
  proof (intro conjI)
    show "fst (snd (visit_links (allLinks ?p) ({}, [], ?R))) = []
          \<longrightarrow> ?x = visit_items (thrown E) (items ?p) (visit_links (allLinks ?p) ({}, [], ?R))"
      by (rule a)
  next
    show "\<not> global ?R \<and> fst (snd (visit_links (allLinks ?p) ({}, [], ?R))) = []
          \<longrightarrow> fst (scanLiveTodo E st)
              = (if \<forall>it\<in>set (items ?p). item_innerText it \<noteq> None
                 then Inr (Some (fst (snd (snd ?x))))
                 else Inl (thrown E (ReadOfUndefined ''trim'')))
              \<and> ((\<forall>it\<in>set (items ?p). item_innerText it \<noteq> None)
                 \<longrightarrow> (\<exists>its. subseq its (items ?p)
                        \<and> fst (scanLiveTodo E st)
                          = Inr (Some (map (\<lambda>it. item_record it (item_href it)) its))
                        \<and> distinct (map item_href its)
                        \<and> (\<forall>it\<in>set its.
                              item_link it \<noteq> None \<and> item_href it \<notin> primary_seen ?p
                              \<and> \<not> item_excluded ?R it)
                        \<and> (\<forall>it\<in>set (items ?p).
                              item_link it \<noteq> None \<and> item_href it \<notin> primary_seen ?p
                              \<and> \<not> item_excluded ?R it
                              \<longrightarrow> item_href it \<in> item_href ` set its)))"
      using r1 r2 by blast
  next
    show "fst ?x = Inr () \<and> fst (snd (snd ?x)) = []
          \<longrightarrow> fst (pipeline E st) = Inr ()
              \<and> trace (snd (pipeline E st))
                = trace st @
                  [Status ''Scanning To-do page...'', Logged ''Scanning To-do page...'',
                   Sleep 3000,
                   Status (''No assignments found. Make sure you'' @ [CHR 0x27] @ ''re on the To-do page.''),
                   Logged (''No assignments found. Make sure you'' @ [CHR 0x27] @ ''re on the To-do page.''),
                   Result EmptyHint]
              \<and> sent (snd (pipeline E st)) = sent st
              \<and> (key_accepted E
                   \<longrightarrow> trace (main E st)
                       = trace st @
                         [PanelCreated,
                          Status ''Scanning To-do page...'', Logged ''Scanning To-do page...'',
                          Sleep 3000,
                          Status (''No assignments found. Make sure you'' @ [CHR 0x27] @ ''re on the To-do page.''),
                          Logged (''No assignments found. Make sure you'' @ [CHR 0x27] @ ''re on the To-do page.''),
                          Result EmptyHint]
                     \<and> sent (main E st) = sent st)"
      using b [of st] c by blast
  qed
qed

theorem empty_result_reported_witness:
  "on_listing (document (keyed_env apush_page (primary_answers ''Done.'')))
   \<and> \<not> global (apush_re start)
   \<and> fst (snd (visit_links (allLinks apush_page) ({}, [], APUSH_RE))) = []
   \<and> item_href (items apush_page ! 0) \<in> primary_seen apush_page
   \<and> item_href (items apush_page ! 1) \<notin> primary_seen apush_page
   \<and> \<not> item_excluded APUSH_RE (items apush_page ! 1)
   \<and> fst (scanLiveTodo (keyed_env apush_page (primary_answers ''Done.'')) start)
     = Inr (Some [\<lparr>title = ''Essay outline '', course = [],
                    url = ''https://classroom.google.com/details/MjI'',
                    text' = ''Essay outline '' @ nl @ ''Friday''\<rparr>])
   \<and> on_listing (document (keyed_env excluded_only_page (primary_answers ''Done.'')))
   \<and> key_accepted (keyed_env excluded_only_page (primary_answers ''Done.''))
   \<and> fst (snd (visit_links (allLinks excluded_only_page) ({}, [], APUSH_RE))) = []
   \<and> item_href (items excluded_only_page ! 1) \<notin> primary_seen excluded_only_page
   \<and> item_excluded APUSH_RE (items excluded_only_page ! 1)
   \<and> fst (scanLiveTodo (keyed_env excluded_only_page (primary_answers ''Done.'')) start)
     = Inr (Some [])
   \<and> fst (extract_records v8_error excluded_only_page APUSH_RE) = Inr ()
   \<and> fst (snd (snd (extract_records v8_error excluded_only_page APUSH_RE))) = []
   \<and> trace (main (keyed_env excluded_only_page (primary_answers ''Done.'')) start)
     = [PanelCreated,
        Status ''Scanning To-do page...'', Logged ''Scanning To-do page...'',
        Sleep 3000,
        Status (''No assignments found. Make sure you'' @ [CHR 0x27] @ ''re on the To-do page.''),
        Logged (''No assignments found. Make sure you'' @ [CHR 0x27] @ ''re on the To-do page.''),
        Result EmptyHint]
   \<and> sent (main (keyed_env excluded_only_page (primary_answers ''Done.'')) start) = 0"
proof -
  let ?E = "keyed_env apush_page (primary_answers ''Done.'')"
  let ?F = "keyed_env excluded_only_page (primary_answers ''Done.'')"
  let ?i = "items apush_page ! 0"
  let ?j = "items apush_page ! 1"
  let ?k = "items excluded_only_page ! 1"
  let ?rec = "\<lambda>it. item_record it (item_href it)"
  have d: "document ?E = apush_page" "thrown ?E = v8_error"
      "document ?F = excluded_only_page" "thrown ?F = v8_error"
    by (simp_all add: keyed_env_def sample_env_def)
  have s: "apush_re start = APUSH_RE" "trace start = []" "sent start = 0"
    by (simp_all add: start_def)
  have g: "\<not> global (apush_re start)"
    by (simp only: s APUSH_RE_not_global) simp
  have l: "on_listing (document ?E)"
    by code_simp
  have p: "fst (snd (visit_links (allLinks apush_page) ({}, [], APUSH_RE))) = []"
    by code_simp
  have i: "items apush_page = [?i, ?j]" "items excluded_only_page = [?i, ?k]"
    by (simp_all add: apush_page_def excluded_only_page_def)
  have t: "\<forall>it\<in>set (items apush_page). item_innerText it \<noteq> None"
    by (simp add: apush_page_def)
  have t': "\<forall>it\<in>set (items excluded_only_page). item_innerText it \<noteq> None"
    by (simp add: apush_page_def excluded_only_page_def)
  have 1: "item_href ?i \<in> primary_seen apush_page"
    by code_simp
  have 2: "item_href ?j \<notin> primary_seen apush_page"
    by code_simp
  have 3: "\<not> item_excluded APUSH_RE ?j"
    by code_simp
  have 4: "item_link ?j \<noteq> None" "item_link ?k \<noteq> None"
    by (simp_all add: apush_page_def excluded_only_page_def)
  have 5: "?rec ?j = \<lparr>title = ''Essay outline '', course = [],
                    url = ''https://classroom.google.com/details/MjI'',
                    text' = ''Essay outline '' @ nl @ ''Friday''\<rparr>"
    by code_simp
  have q: "primary_seen excluded_only_page = primary_seen apush_page"
      "allLinks excluded_only_page = allLinks apush_page"
    by (simp_all add: primary_seen_def excluded_only_page_def)
  have 6: "item_href ?k \<notin> primary_seen apush_page"
    by code_simp
  have 7: "item_excluded APUSH_RE ?k"
    by code_simp
  have k: "key_accepted ?F"
    by code_simp
  have l': "on_listing (document ?F)"
    by code_simp
  have pE: "fst (snd (visit_links (allLinks (document ?E)) ({}, [], apush_re start))) = []"
    using p by (simp only: d s)
  have tE: "\<forall>it\<in>set (items (document ?E)). item_innerText it \<noteq> None"
    using t by (simp only: d)
  have p': "fst (snd (visit_links (allLinks excluded_only_page) ({}, [], APUSH_RE))) = []"
    using p by (simp only: q)
  have pF: "fst (snd (visit_links (allLinks (document ?F)) ({}, [], apush_re start))) = []"
    using p' by (simp only: d s)
  have tF: "\<forall>it\<in>set (items (document ?F)). item_innerText it \<noteq> None"
    using t' by (simp only: d)
  note E = empty_result_reported [OF l, of start, THEN conjunct2, THEN conjunct1, THEN mp,
             OF conjI [OF g pE]]
  note F = empty_result_reported [OF l', of start, THEN conjunct2, THEN conjunct1, THEN mp,
             OF conjI [OF g pF]]
  note G = empty_result_reported [OF l', of start, THEN conjunct2, THEN conjunct2]
  from E [THEN conjunct2, THEN mp, OF tE, unfolded d s]
  obtain its where its: "subseq its (items apush_page)"
     "fst (scanLiveTodo ?E start) = Inr (Some (map ?rec its))"
     "distinct (map item_href its)"
     "\<forall>it\<in>set its. item_link it \<noteq> None \<and> item_href it \<notin> primary_seen apush_page
                    \<and> \<not> item_excluded APUSH_RE it"
     "\<forall>it\<in>set (items apush_page). item_link it \<noteq> None \<and> item_href it \<notin> primary_seen apush_page
                    \<and> \<not> item_excluded APUSH_RE it \<longrightarrow> item_href it \<in> item_href ` set its"
    by blast
  from subseq_set [OF its(1)] have "set its \<subseteq> {?i, ?j}"
    by (simp add: apush_page_def)
  moreover from its(4) 1 have "?i \<notin> set its" by blast
  moreover from its(5) 2 3 4 have "item_href ?j \<in> item_href ` set its"
    by (simp add: apush_page_def)
  ultimately have "set its = {?j}" by auto
  moreover from its(3) have "distinct its" by (simp add: distinct_map)
  ultimately have "its = [?j]" by (simp add: distinct_singleton_set)
  with its(2) 5 have 8: "fst (scanLiveTodo ?E start)
     = Inr (Some [\<lparr>title = ''Essay outline '', course = [],
                    url = ''https://classroom.google.com/details/MjI'',
                    text' = ''Essay outline '' @ nl @ ''Friday''\<rparr>])"
    by simp
  from F [THEN conjunct2, THEN mp, OF tF, unfolded d s q]
  obtain ks where ks: "subseq ks (items excluded_only_page)"
     "fst (scanLiveTodo ?F start) = Inr (Some (map ?rec ks))"
     "\<forall>it\<in>set ks. item_link it \<noteq> None \<and> item_href it \<notin> primary_seen apush_page
                    \<and> \<not> item_excluded APUSH_RE it"
    by blast
  from F [THEN conjunct1, unfolded d s] t'
  have x: "fst (scanLiveTodo ?F start)
      = Inr (Some (fst (snd (snd (extract_records v8_error excluded_only_page APUSH_RE)))))"
    by simp
  from subseq_set [OF ks(1)] have "set ks \<subseteq> {?i, ?k}"
    by (simp add: apush_page_def excluded_only_page_def)
  moreover from ks(3) 1 have "?i \<notin> set ks" by blast
  moreover from ks(3) 7 have "?k \<notin> set ks" by blast
  ultimately have "ks = []" by (cases ks) auto
  with ks(2) have 9: "fst (scanLiveTodo ?F start) = Inr (Some [])"
    by simp
  with x have z: "fst (snd (snd (extract_records v8_error excluded_only_page APUSH_RE))) = []"
    by simp
  from secondary_pass_result [of APUSH_RE excluded_only_page v8_error] p' t'
  have y: "fst (extract_records v8_error excluded_only_page APUSH_RE) = Inr ()"
    by (simp add: APUSH_RE_not_global)
  from G y z k have 10: "trace (main ?F start)
     = [PanelCreated,
        Status ''Scanning To-do page...'', Logged ''Scanning To-do page...'',
        Sleep 3000,
        Status (''No assignments found. Make sure you'' @ [CHR 0x27] @ ''re on the To-do page.''),
        Logged (''No assignments found. Make sure you'' @ [CHR 0x27] @ ''re on the To-do page.''),
        Result EmptyHint]"
    and 11: "sent (main ?F start) = 0"
    by (simp_all only: d s append_Nil)
  have 12: "item_href ?k \<notin> primary_seen excluded_only_page"
    unfolding q(1) by (rule 6)
  from l g p 1 2 3 8 l' k p' 12 7 9 y z 10 11 show ?thesis
    by blast
qed

end
